theory Spec2Isabelle
  imports Main "HOL-Library.Char_ord" "HOL-Library.List_Lexorder"
begin

section \<open>The simple\_fs image packer (scripts/make\_init\_simple\_fs.py)\<close>

text \<open>
  A byte is a \<^typ>\<open>char\<close> (eight bits), a byte string is a \<^typ>\<open>string\<close>. A Python
  \<open>str\<close> holding a file name is represented by the UTF-8 bytes of that name; a
  \<open>pathlib\<close> path is the list of its components (POSIX flavour: the separator is
  \<open>/\<close>, a backslash is an ordinary character of a name). An exception of the
  script is a value of \<open>error\<close>. Failures of the operating system (a file that cannot
  be read, an output that cannot be written), the messages printed in verbose mode and the
  command line are left out.
\<close>

type_synonym bytes = string
type_synonym path = "string list"

datatype error = StructError | UnicodeEncodeError | UnicodeDecodeError

subsection \<open>Constants\<close>

definition MAGIC :: bytes where
  "MAGIC = ''RAMDISK'' @ [CHR 0x00]"

definition FILE_MAGIC :: nat where
  "FILE_MAGIC = 0x46494C45"

definition BLOCK_SIZE :: nat where
  "BLOCK_SIZE = 512"

definition FILE_TYPE_FILE :: nat where
  "FILE_TYPE_FILE = 0"

definition FILE_TYPE_DIR :: nat where
  "FILE_TYPE_DIR = 1"

definition align_to :: "nat \<Rightarrow> nat \<Rightarrow> nat" where
  "align_to sz alignment = (sz + alignment - 1) div alignment * alignment"

subsection \<open>The \<open>struct\<close> module: little-endian unsigned 32-bit fields\<close>

definition le32 :: "nat \<Rightarrow> bytes" where
  "le32 n = [char_of n, char_of (n div 256), char_of (n div 65536), char_of (n div 16777216)]"

text \<open>\<open>struct.pack('<kI', v1, ..., vk)\<close>: raises \<open>struct.error\<close> when a value does not
  fit 32 bits.\<close>

definition struct_pack :: "nat list \<Rightarrow> error + bytes" where
  "struct_pack vs =
     (if list_all (\<lambda>v. v < 2 ^ 32) vs then Inr (concat (map le32 vs)) else Inl StructError)"

definition unpack_I :: "bytes \<Rightarrow> nat" where
  "unpack_I bs = (of_char (bs ! 0) :: nat) + 256 * of_char (bs ! 1)
                 + 65536 * of_char (bs ! 2) + 16777216 * of_char (bs ! 3)"

text \<open>\<open>struct.unpack('<kI', buf)\<close>: raises \<open>struct.error\<close> unless the buffer has exactly
  \<open>4k\<close> bytes.\<close>

fun chunks4 :: "bytes \<Rightarrow> bytes list" where
  "chunks4 (a # b # c # d # rest) = [a, b, c, d] # chunks4 rest"
| "chunks4 _ = []"

definition struct_unpack :: "nat \<Rightarrow> bytes \<Rightarrow> error + nat list" where
  "struct_unpack k buf =
     (if length buf = 4 * k then Inr (map unpack_I (chunks4 buf)) else Inl StructError)"

subsection \<open>UTF-8\<close>

definition in_range :: "nat \<Rightarrow> nat \<Rightarrow> char \<Rightarrow> bool" where
  "in_range lo hi c = (lo \<le> (of_char c :: nat) \<and> (of_char c :: nat) \<le> hi)"

text \<open>Well-formed UTF-8 as the strict codec of Python accepts it: shortest form only, no
  surrogates, nothing above U+10FFFF.\<close>

fun utf8_valid :: "bytes \<Rightarrow> bool" where
  "utf8_valid [] = True"
| "utf8_valid (c # cs) =
     (if in_range 0x00 0x7F c then utf8_valid cs
      else if in_range 0xC2 0xDF c then
        (case cs of c1 # r \<Rightarrow> in_range 0x80 0xBF c1 \<and> utf8_valid r | _ \<Rightarrow> False)
      else if in_range 0xE0 0xEF c then
        (case cs of c1 # c2 # r \<Rightarrow>
           (if in_range 0xE0 0xE0 c then in_range 0xA0 0xBF c1
            else if in_range 0xED 0xED c then in_range 0x80 0x9F c1
            else in_range 0x80 0xBF c1)
           \<and> in_range 0x80 0xBF c2 \<and> utf8_valid r
         | _ \<Rightarrow> False)
      else if in_range 0xF0 0xF4 c then
        (case cs of c1 # c2 # c3 # r \<Rightarrow>
           (if in_range 0xF0 0xF0 c then in_range 0x90 0xBF c1
            else if in_range 0xF4 0xF4 c then in_range 0x80 0x8F c1
            else in_range 0x80 0xBF c1)
           \<and> in_range 0x80 0xBF c2 \<and> in_range 0x80 0xBF c3 \<and> utf8_valid r
         | _ \<Rightarrow> False)
      else False)"

text \<open>\<open>s.encode('utf-8')\<close> on a file name. The name reached Python through
  \<open>os.fsdecode\<close> (UTF-8 with \<open>surrogateescape\<close>), so encoding gives the bytes of the
  name back when they are well-formed and raises \<open>UnicodeEncodeError\<close> otherwise.\<close>

definition encode :: "string \<Rightarrow> error + bytes" where
  "encode s = (if utf8_valid s then Inr s else Inl UnicodeEncodeError)"

text \<open>\<open>b.decode('utf-8')\<close>.\<close>

definition decode :: "bytes \<Rightarrow> error + string" where
  "decode b = (if utf8_valid b then Inr b else Inl UnicodeDecodeError)"

subsection \<open>The source tree and \<open>pathlib\<close>\<close>

text \<open>
  What \<open>is_file\<close>, \<open>is_dir\<close> and \<open>read_bytes\<close> report for a path. Both tests follow
  symbolic links, so a link to a regular file is \<open>Regular\<close> with the content of its
  target and a link to a directory is a \<open>Directory\<close>; \<open>Other\<close> is everything else (a
  dangling link, a FIFO, a socket, a device). The first field is the permission word of
  the entry (\<open>st_mode\<close>), which the packer never reads.
\<close>

datatype fobj = Regular nat bytes | Directory nat | Other nat

datatype node = File nat bytes | Dir nat "(string \<times> node) list" | Special nat

type_synonym item = "path \<times> fobj"

fun stat :: "node \<Rightarrow> fobj" where
  "stat (File m d) = Regular m d"
| "stat (Dir m cs) = Directory m"
| "stat (Special m) = Other m"

fun is_file :: "item \<Rightarrow> bool" where
  "is_file (p, Regular m d) = True"
| "is_file (p, _) = False"

fun is_dir :: "item \<Rightarrow> bool" where
  "is_dir (p, Directory m) = True"
| "is_dir (p, _) = False"

fun read_bytes :: "item \<Rightarrow> bytes" where
  "read_bytes (p, Regular m d) = d"
| "read_bytes (p, _) = []"

text \<open>\<open>src_dir.rglob('*')\<close>: every path below \<open>src_dir\<close>, the entries of a directory
  in the order the operating system lists them (the order of the children here), then the
  entries below each of its subdirectories. Nothing is listed below a path that is not a
  directory; a symbolic link to a directory is not followed, it is a \<open>Dir\<close> without
  children here.\<close>

fun rglob :: "path \<Rightarrow> node \<Rightarrow> item list" where
  "rglob p (Dir m cs) =
     map (\<lambda>(nm, c). (p @ [nm], stat c)) cs @ concat (map (\<lambda>(nm, c). rglob (p @ [nm]) c) cs)"
| "rglob p (File m d) = []"
| "rglob p (Special m) = []"

text \<open>\<open>path.relative_to(base)\<close>: \<open>None\<close> stands for the \<open>ValueError\<close>.\<close>

definition relative_to :: "path \<Rightarrow> path \<Rightarrow> path option" where
  "relative_to p base =
     (if take (length base) p = base then Some (drop (length base) p) else None)"

text \<open>\<open>path.name\<close>: the last component, empty for the empty path.\<close>

definition name :: "path \<Rightarrow> string" where
  "name p = (if p = [] then [] else last p)"

text \<open>\<open>s.rfind('.')\<close>, with \<open>None\<close> for \<open>-1\<close>.\<close>

fun rfind_dot :: "string \<Rightarrow> nat option" where
  "rfind_dot [] = None"
| "rfind_dot (c # cs) =
     (case rfind_dot cs of
        Some i \<Rightarrow> Some (Suc i)
      | None \<Rightarrow> if c = CHR ''.'' then Some 0 else None)"

text \<open>\<open>path.suffix\<close>: from the last dot of the name, unless that dot is the first or the
  last character.\<close>

definition suffix :: "path \<Rightarrow> string" where
  "suffix p =
     (case rfind_dot (name p) of
        None \<Rightarrow> []
      | Some i \<Rightarrow> if 0 < i \<and> i + 1 < length (name p) then drop i (name p) else [])"

text \<open>\<open>str(path)\<close>: the components joined by \<open>/\<close>, a single dot for the empty path.\<close>

fun join_slash :: "string list \<Rightarrow> string" where
  "join_slash [] = []"
| "join_slash [c] = c"
| "join_slash (c # cs) = c @ CHR ''/'' # join_slash cs"

definition str :: "path \<Rightarrow> string" where
  "str p = (if p = [] then ''.'' else join_slash p)"

text \<open>\<open>s.replace('\\', '/')\<close>.\<close>

definition replace_backslash :: "string \<Rightarrow> string" where
  "replace_backslash s = map (\<lambda>c. if c = CHR 0x5C then CHR ''/'' else c) s"

definition startswith_dot :: "string \<Rightarrow> bool" where
  "startswith_dot s = (case s of [] \<Rightarrow> False | c # cs \<Rightarrow> c = CHR ''.'')"

subsection \<open>\<open>pack_file\<close>\<close>

definition pack_file :: "item \<Rightarrow> path \<Rightarrow> error + bytes" where
  "pack_file item base =
     (case relative_to (fst item) base of
        None \<Rightarrow> Inr []
      | Some rel_path \<Rightarrow>
          if startswith_dot (name rel_path) \<or> name rel_path \<in> set [''Cargo.lock'', ''Cargo.toml'']
          then Inr []
          else
            (case encode (replace_backslash (str rel_path)) of
               Inl e \<Rightarrow> Inl e
             | Inr name_bytes \<Rightarrow>
                 if \<not> is_file item \<and> \<not> is_dir item then Inr []
                 else
                   (let data = (if is_file item then read_bytes item else []);
                        file_type = (if is_file item then FILE_TYPE_FILE else FILE_TYPE_DIR);
                        mode = (if is_file item then 420 else 493)  \<comment> \<open>\<open>0o644\<close>, \<open>0o755\<close>\<close>
                    in case struct_pack [FILE_MAGIC, length name_bytes, length data,
                                          file_type, mode, 0, 0, 0] of
                         Inl e \<Rightarrow> Inl e
                       | Inr header \<Rightarrow>
                           (let name_aligned = name_bytes @
                                  replicate (align_to (length name_bytes) 4 - length name_bytes)
                                    (CHR 0x00);
                                data_aligned = data @
                                  replicate (align_to (length data) BLOCK_SIZE - length data)
                                    (CHR 0x00)
                            in Inr (header @ name_aligned @ data_aligned)))))"

subsection \<open>\<open>collect_files\<close>\<close>

text \<open>The source directory is \<open>None\<close> when it does not exist. \<open>sorted\<close> orders paths by
  their components, each compared as a string.\<close>

definition collect_files :: "path \<Rightarrow> node option \<Rightarrow> item list" where
  "collect_files src_dir src =
     (case src of
        None \<Rightarrow> []
      | Some root \<Rightarrow>
          filter is_dir (sort_key fst (rglob src_dir root)) @
          filter (\<lambda>item. is_file item
                    \<and> suffix (fst item) \<notin> set [''.d'', ''.o'', ''.a'', ''.rlib'']
                    \<and> name (fst item) \<notin> set [''Cargo.lock'', ''.gitignore''])
            (sort_key fst (rglob src_dir root)))"

subsection \<open>\<open>make_simple_fs\<close>\<close>

text \<open>The loop over the collected items: a block that is not empty is appended.\<close>

fun pack_loop :: "path \<Rightarrow> item list \<Rightarrow> bytes list \<Rightarrow> error + bytes list" where
  "pack_loop src_dir [] packed_files = Inr packed_files"
| "pack_loop src_dir (item # files) packed_files =
     (case pack_file item src_dir of
        Inl e \<Rightarrow> Inl e
      | Inr packed \<Rightarrow>
          pack_loop src_dir files
            (if packed \<noteq> [] then packed_files @ [packed] else packed_files))"

text \<open>The result is the returned pair (number of entries, size of the image) and the bytes
  written to the output file.\<close>

definition make_simple_fs :: "path \<Rightarrow> node option \<Rightarrow> error + ((nat \<times> nat) \<times> bytes)" where
  "make_simple_fs src_dir src =
     (case src of
        None \<Rightarrow>
          (case struct_pack [0, 0] of
             Inl e \<Rightarrow> Inl e
           | Inr cnt \<Rightarrow>
               (let header = MAGIC @ cnt;
                    header = header @ replicate (16 - length header) (CHR 0x00)
                in Inr ((0, length header), header)))
      | Some root \<Rightarrow>
          (case pack_loop src_dir (collect_files src_dir src) [] of
             Inl e \<Rightarrow> Inl e
           | Inr packed_files \<Rightarrow>
               (case struct_pack [length packed_files, 0] of
                  Inl e \<Rightarrow> Inl e
                | Inr cnt \<Rightarrow>
                    (let header = MAGIC @ cnt;
                         header = header @ replicate (16 - length header) (CHR 0x00);
                         written = header @ concat packed_files;
                         current_size = length written;
                         aligned_size = align_to current_size BLOCK_SIZE;
                         padding = aligned_size - current_size;
                         img = (if padding > 0 then written @ replicate padding (CHR 0x00)
                                else written)
                     in Inr ((length packed_files, length img), img)))))"

subsection \<open>\<open>inspect_simple_fs\<close>\<close>

text \<open>\<open>f.read(n)\<close> at file position \<open>pos\<close>: the bytes read (fewer than \<open>n\<close> at the end
  of the file) and the new position. \<open>f.seek(n, 1)\<close> adds \<open>n\<close> to the position, also
  beyond the end of the file.\<close>

definition f_read :: "bytes \<Rightarrow> nat \<Rightarrow> nat \<Rightarrow> bytes \<times> nat" where
  "f_read img pos n = (take n (drop pos img), pos + length (take n (drop pos img)))"

text \<open>What the inspector prints: the error line for a bad image magic, the banner with
  the number of entries, the three lines of an entry (type, name, size, mode), the error
  line for a bad entry magic with the index of the entry.\<close>

datatype out =
    InvalidMagic bytes
  | TotalFiles nat
  | Entry string string nat nat
  | InvalidFileMagic nat

datatype step = Raised error | BadFileMagic | Listed string string nat nat nat

text \<open>One iteration of the loop over the entries, from file position \<open>pos\<close>.\<close>

definition inspect_entry :: "bytes \<Rightarrow> nat \<Rightarrow> step" where
  "inspect_entry img pos =
     (let (header, pos1) = f_read img pos 32 in
      case struct_unpack 5 (take 20 header) of
        Inl e \<Rightarrow> Raised e
      | Inr fields \<Rightarrow>
          (let magic = fields ! 0; name_len = fields ! 1; data_len = fields ! 2;
               file_type = fields ! 3; mode = fields ! 4
           in if magic \<noteq> FILE_MAGIC then BadFileMagic
              else
                (let name_aligned = align_to name_len 4;
                     data_aligned = align_to data_len BLOCK_SIZE;
                     (name_block, pos2) = f_read img pos1 name_aligned
                 in case decode (take name_len name_block) of
                      Inl e \<Rightarrow> Raised e
                    | Inr nm \<Rightarrow>
                        Listed (if file_type = FILE_TYPE_FILE then ''FILE'' else ''DIR '')
                          nm data_len mode (pos2 + data_aligned))))"

text \<open>\<open>for i in range(file_count)\<close>: the last argument counts the iterations left. The
  result is the lines printed and the exception that ended the run, if any.\<close>

fun inspect_loop :: "bytes \<Rightarrow> nat \<Rightarrow> nat \<Rightarrow> nat \<Rightarrow> out list \<times> error option" where
  "inspect_loop img pos i 0 = ([], None)"
| "inspect_loop img pos i (Suc k) =
     (case inspect_entry img pos of
        Raised e \<Rightarrow> ([], Some e)
      | BadFileMagic \<Rightarrow> ([InvalidFileMagic i], None)
      | Listed type_str nm data_len mode pos' \<Rightarrow>
          (Entry type_str nm data_len mode # fst (inspect_loop img pos' (Suc i) k),
           snd (inspect_loop img pos' (Suc i) k)))"

definition inspect_simple_fs :: "bytes \<Rightarrow> out list \<times> error option" where
  "inspect_simple_fs img =
     (let (magic, pos) = f_read img 0 8 in
      if magic \<noteq> MAGIC then ([InvalidMagic magic], None)
      else
        (let (cnt, pos1) = f_read img pos 4 in
         case struct_unpack 1 cnt of
           Inl e \<Rightarrow> ([], Some e)
         | Inr fields \<Rightarrow>
             (let file_count = fields ! 0;
                  (reserved, pos2) = f_read img pos1 4
              in (TotalFiles file_count # fst (inspect_loop img pos2 0 file_count),
                  snd (inspect_loop img pos2 0 file_count)))))"


section \<open>The layout of an image\<close>

text \<open>
  The binary layout as the format describes it, to compare the packer and the inspector
  with. An entry is its name bytes, its data, its kind field and its mode field. Its block
  is the 32-byte header (magic, length of the name, length of the data, kind, mode, twelve
  zero bytes), the name padded with zeros to a multiple of 4 bytes and the data padded
  with zeros to a multiple of 512 bytes.
\<close>

type_synonym raw_entry = "bytes \<times> bytes \<times> nat \<times> nat"

fun entry_block :: "raw_entry \<Rightarrow> bytes" where
  "entry_block (nb, data, kind, mode) =
     (le32 FILE_MAGIC @ le32 (length nb) @ le32 (length data) @ le32 kind @ le32 mode
        @ replicate 12 (CHR 0x00))
     @ (nb @ replicate (align_to (length nb) 4 - length nb) (CHR 0x00))
     @ (data @ replicate (align_to (length data) 512 - length data) (CHR 0x00))"

text \<open>The fields fit their 32 bits and the name is well-formed UTF-8.\<close>

fun entry_ok :: "raw_entry \<Rightarrow> bool" where
  "entry_ok (nb, data, kind, mode) =
     (utf8_valid nb \<and> length nb < 2 ^ 32 \<and> length data < 2 ^ 32 \<and> kind < 2 ^ 32 \<and> mode < 2 ^ 32)"

text \<open>The lines the inspector prints for an entry.\<close>

fun entry_line :: "raw_entry \<Rightarrow> out" where
  "entry_line (nb, data, kind, mode) =
     Entry (if kind = 0 then ''FILE'' else ''DIR '') nb (length data) mode"

text \<open>An image of \<open>sz\<close> bytes: the 16-byte header with the number of entries, the
  blocks of the entries one after the other, zero bytes up to that size.\<close>

definition image_layout :: "raw_entry list \<Rightarrow> nat \<Rightarrow> bytes" where
  "image_layout es sz =
     (MAGIC @ le32 (length es) @ le32 0) @ concat (map entry_block es)
     @ replicate (sz - (16 + length (concat (map entry_block es)))) (CHR 0x00)"

text \<open>The entry the packer writes for an item: the name is the path relative to the
  source directory, joined with \<open>/\<close>, every backslash replaced by \<open>/\<close>.\<close>

definition entry_name :: "path \<Rightarrow> item \<Rightarrow> string" where
  "entry_name base item = replace_backslash (str (drop (length base) (fst item)))"

definition entry_of :: "path \<Rightarrow> item \<Rightarrow> raw_entry" where
  "entry_of base item =
     (entry_name base item, read_bytes item,
      if is_file item then FILE_TYPE_FILE else FILE_TYPE_DIR,
      if is_file item then 420 else 493)"

text \<open>The name tests of \<open>pack_file\<close>, and the collected items that pass them: the
  entries of the image, in the order of the stream.\<close>

definition skipped :: "item \<Rightarrow> bool" where
  "skipped item =
     (startswith_dot (name (fst item)) \<or> name (fst item) \<in> set [''Cargo.lock'', ''Cargo.toml''])"

definition entries :: "path \<Rightarrow> node \<Rightarrow> item list" where
  "entries src_dir root = filter (\<lambda>item. \<not> skipped item) (collect_files src_dir (Some root))"

text \<open>The size of the image that holds the given entries: header and blocks, rounded up
  to the block size.\<close>

definition image_size :: "raw_entry list \<Rightarrow> nat" where
  "image_size es = align_to (16 + length (concat (map entry_block es))) 512"

text \<open>The listing the inspector is to print for the image of a tree, entry by entry:
  kind, name, length of the data and mode.\<close>

definition listing :: "path \<Rightarrow> node \<Rightarrow> out list" where
  "listing src_dir root =
     map (\<lambda>item. Entry (if is_file item then ''FILE'' else ''DIR '') (entry_name src_dir item)
                    (length (read_bytes item)) (if is_file item then 420 else 493))
       (entries src_dir root)"


text \<open>Packing, then inspecting the image written.\<close>

definition pack_then_inspect :: "path \<Rightarrow> node option \<Rightarrow> error + (out list \<times> error option)" where
  "pack_then_inspect src_dir src =
     (case make_simple_fs src_dir src of
        Inl e \<Rightarrow> Inl e
      | Inr r \<Rightarrow> Inr (inspect_simple_fs (snd r)))"

subsection \<open>Sample trees\<close>

text \<open>The tree of the example: the directory \<open>bin\<close> with the file \<open>hello.txt\<close>, with
  any permissions.\<close>

definition hello_tree :: "nat \<Rightarrow> nat \<Rightarrow> nat \<Rightarrow> node" where
  "hello_tree m0 m1 m2 = Dir m0 [(''bin'', Dir m1 [(''hello.txt'', File m2 ''hello'')])]"


text \<open>A tree with an object file, a hidden directory, a file and a directory.\<close>

definition sample_tree :: node where
  "sample_tree =
     Dir 493 [(''b.o'', File 420 ''x''), (''.git'', Dir 448 []), (''a'', File 384 ''hi''),
              (''d'', Dir 493 [])]"

text \<open>The entries of the image of \<open>sample_tree\<close>, and that image.\<close>

definition sample_image :: bytes where
  "sample_image =
     image_layout [(''d'', [], FILE_TYPE_DIR, 493), (''a'', ''hi'', FILE_TYPE_FILE, 420)] 1024"

text \<open>The same tree as \<open>sample_tree\<close>, its entries listed in another order.\<close>

definition sample_tree_reordered :: node where
  "sample_tree_reordered =
     Dir 493 [(''d'', Dir 493 []), (''a'', File 384 ''hi''), (''.git'', Dir 448 []),
              (''b.o'', File 420 ''x'')]"

subsection \<open>Well-framed images and the position of an entry\<close>

text \<open>The file position the inspector has reached after \<open>m\<close> entries read from
  position \<open>pos\<close>, when each of them is listed.\<close>

fun skip_entries :: "bytes \<Rightarrow> nat \<Rightarrow> nat \<Rightarrow> nat option" where
  "skip_entries img pos 0 = Some pos"
| "skip_entries img pos (Suc m) =
     (case inspect_entry img pos of
        Listed type_str nm data_len mode pos' \<Rightarrow> skip_entries img pos' m
      | _ \<Rightarrow> None)"

text \<open>The position of the header of entry \<open>i\<close>, whose first four bytes are its magic:
  the entries start after the 16 bytes of the image header.\<close>

definition entry_pos :: "bytes \<Rightarrow> nat \<Rightarrow> nat option" where
  "entry_pos img i = skip_entries img 16 i"

fun is_entry_line :: "out \<Rightarrow> bool" where
  "is_entry_line (Entry type_str nm data_len mode) = True"
| "is_entry_line _ = False"

text \<open>A valid image: the inspector ends without an exception and prints the banner and
  one entry for each of the entries the header announces, and no error line.\<close>

definition valid_image :: "bytes \<Rightarrow> bool" where
  "valid_image img =
     (snd (inspect_simple_fs img) = None \<and>
      (case fst (inspect_simple_fs img) of
         TotalFiles n # lines \<Rightarrow> length lines = n \<and> list_all is_entry_line lines
       | _ \<Rightarrow> False))"

subsection \<open>The filtering policy\<close>


text \<open>A tree with a hidden directory that holds one file.\<close>

definition hidden_dir_tree :: node where
  "hidden_dir_tree = Dir 493 [(''.git'', Dir 493 [(''config'', File 420 ''x'')])]"

section \<open>Fields and alignment\<close>

lemma length_le32 [simp]: "length (le32 n) = 4"
  by (simp add: le32_def)

lemma char_of_zero: "char_of (0::nat) = CHR 0x00"
  by (simp add: char_of_eq_iff)

lemma replicate4: "replicate 4 c = [c, c, c, c]"
  by (simp add: numeral_eq_Suc)

lemma le32_zero: "le32 0 = replicate 4 (CHR 0x00)"
  by (simp add: le32_def char_of_zero replicate4)

lemma unpack_I_le32:
  assumes "n < 2 ^ 32"
  shows "unpack_I (le32 n) = n"
proof -
  define a where "a = n div 256"
  define b where "b = a div 256"
  define c where "c = b div 256"
  define n0 where "n0 = n mod 256"
  define a0 where "a0 = a mod 256"
  define b0 where "b0 = b mod 256"
  have n: "n = 256 * a + n0" by (simp add: a_def n0_def)
  have a: "a = 256 * b + a0" by (simp add: b_def a0_def)
  have b: "b = 256 * c + b0" by (simp add: c_def b0_def)
  have c: "c < 256"
    using assms by (simp add: c_def b_def a_def div_mult2_eq[symmetric] less_mult_imp_div_less)
  have d1: "n div 65536 = b" by (simp add: b_def a_def div_mult2_eq[symmetric])
  have d2: "n div 16777216 = c" by (simp add: c_def b_def a_def div_mult2_eq[symmetric])
  have "unpack_I (le32 n) = n0 + 256 * a0 + 65536 * b0 + 16777216 * (c mod 256)"
    by (simp add: unpack_I_def le32_def d1 d2 n0_def a0_def b0_def a_def[symmetric])
  also have "c mod 256 = c" using c by simp
  finally show ?thesis using n a b by simp
qed

lemma chunks4_le32 [simp]: "chunks4 (le32 n @ rest) = le32 n # chunks4 rest"
  by (simp add: le32_def)

lemma align_to_dvd: "a dvd align_to n a"
  by (simp add: align_to_def)

lemma align_to_ge:
  assumes "0 < a"
  shows "n \<le> align_to n a"
proof -
  define r where "r = (n + a - 1) div a * a"
  have "n + a - 1 < a + r"
    unfolding r_def using assms by (rule dividend_less_div_times)
  then have "n \<le> r" using assms by simp
  then show ?thesis by (simp add: align_to_def r_def)
qed

lemma MAGIC_length [simp]: "length MAGIC = 8"
  by (simp add: MAGIC_def)

lemma struct_pack_two:
  "struct_pack [n, 0] = (if n < 2 ^ 32 then Inr (le32 n @ le32 0) else Inl StructError)"
  by (simp add: struct_pack_def)

lemma struct_pack_header:
  "struct_pack [FILE_MAGIC, ln, ld, ft, md, 0, 0, 0] =
     (if ln < 2 ^ 32 \<and> ld < 2 ^ 32 \<and> ft < 2 ^ 32 \<and> md < 2 ^ 32
      then Inr (le32 FILE_MAGIC @ le32 ln @ le32 ld @ le32 ft @ le32 md @ replicate 12 (CHR 0x00))
      else Inl StructError)"
proof -
  have r: "replicate 12 (CHR 0x00) =
      replicate 4 (CHR 0x00) @ replicate 4 (CHR 0x00) @ replicate 4 (CHR 0x00)"
    by (simp add: replicate_add[symmetric])
  show ?thesis
    by (simp add: struct_pack_def FILE_MAGIC_def r le32_zero)
qed

section \<open>A missing source directory\<close>

text \<open>
  C3. When the source directory does not exist, \<open>make_simple_fs\<close> does not fail and
  reports no entries, but the image it writes is the 16-byte header alone and the size it
  returns is 16, not 512: this path returns before the padding to the block size, which
  the path for an existing directory applies.
\<close>

theorem missing_source_header_only:
  "make_simple_fs src_dir None = Inr ((0, 16), MAGIC @ replicate 8 (CHR 0x00))"
  by (simp add: make_simple_fs_def struct_pack_two le32_zero replicate_add[symmetric])

text \<open>
  C2. The image written for a missing source directory is not a multiple of the block
  size: its length leaves the remainder 16 modulo 512.
\<close>

theorem missing_source_not_block_aligned:
  "map_sum id (\<lambda>r. length (snd r) mod BLOCK_SIZE) (make_simple_fs src_dir None) = Inr 16"
  by (simp add: make_simple_fs_def struct_pack_two le32_zero BLOCK_SIZE_def)

section \<open>What \<open>pack_file\<close> returns\<close>

lemma name_append: "rel \<noteq> [] \<Longrightarrow> name (base @ rel) = name rel"
  by (simp add: name_def)

lemma relative_to_append [simp]: "relative_to (base @ rel) base = Some rel"
  by (simp add: relative_to_def)

lemma pack_file_eq:
  assumes "fst item = base @ rel" and "rel \<noteq> []"
  shows "pack_file item base =
     (if skipped item then Inr []
      else if \<not> utf8_valid (entry_name base item) then Inl UnicodeEncodeError
      else if \<not> is_file item \<and> \<not> is_dir item then Inr []
      else if length (entry_name base item) < 2 ^ 32 \<and> length (read_bytes item) < 2 ^ 32
           then Inr (entry_block (entry_of base item))
           else Inl StructError)"
proof -
  have rel: "relative_to (fst item) base = Some rel" using assms by simp
  have nm: "name rel = name (fst item)" using assms by (simp add: name_append)
  have dr: "drop (length base) (fst item) = rel" using assms by simp
  have dir_data: "\<not> is_file item \<Longrightarrow> read_bytes item = []"
    by (cases item rule: is_file.cases) auto
  show ?thesis
    unfolding pack_file_def rel option.case nm
    by (simp add: skipped_def entry_name_def dr encode_def struct_pack_header entry_of_def
        FILE_TYPE_FILE_def FILE_TYPE_DIR_def BLOCK_SIZE_def dir_data Let_def)
qed

section \<open>The inspector on a laid-out image\<close>

lemma length_entry_block:
  "length (entry_block (nb, data, kind, mode)) =
     32 + align_to (length nb) 4 + align_to (length data) 512"
  using align_to_ge[of 4 "length nb"] align_to_ge[of 512 "length data"] by simp

lemma struct_unpack_header:
  assumes "ln < 2 ^ 32" "ld < 2 ^ 32" "kind < 2 ^ 32" "mode < 2 ^ 32"
  shows "struct_unpack 5 (le32 FILE_MAGIC @ le32 ln @ le32 ld @ le32 kind @ le32 mode)
         = Inr [FILE_MAGIC, ln, ld, kind, mode]"
proof -
  have "FILE_MAGIC < 2 ^ 32" by (simp add: FILE_MAGIC_def)
  moreover have "chunks4 (le32 mode) = [le32 mode]" by (simp add: le32_def)
  ultimately show ?thesis
    using assms by (simp add: struct_unpack_def unpack_I_le32)
qed

lemma inspect_entry_block:
  assumes "entry_ok (nb, data, kind, mode)"
  shows "inspect_entry (pre @ entry_block (nb, data, kind, mode) @ post) (length pre) =
           Listed (if kind = 0 then ''FILE'' else ''DIR '') nb (length data) mode
             (length pre + length (entry_block (nb, data, kind, mode)))"
proof -
  define hd5 where "hd5 = le32 FILE_MAGIC @ le32 (length nb) @ le32 (length data) @ le32 kind @ le32 mode"
  define nblock where "nblock = nb @ replicate (align_to (length nb) 4 - length nb) (CHR 0x00)"
  define dblock where "dblock = data @ replicate (align_to (length data) 512 - length data) (CHR 0x00)"
  define img where "img = pre @ entry_block (nb, data, kind, mode) @ post"
  have blk: "entry_block (nb, data, kind, mode) = (hd5 @ replicate 12 (CHR 0x00)) @ nblock @ dblock"
    by (simp add: hd5_def nblock_def dblock_def)
  have l5: "length hd5 = 20" by (simp add: hd5_def)
  have ln: "length nblock = align_to (length nb) 4"
    using align_to_ge[of 4 "length nb"] by (simp add: nblock_def)
  have ld: "length dblock = align_to (length data) 512"
    using align_to_ge[of 512 "length data"] by (simp add: dblock_def)
  have hdr: "take 32 (drop (length pre) img) = hd5 @ replicate 12 (CHR 0x00)"
    unfolding img_def blk by (simp add: l5)
  have fields: "struct_unpack 5 hd5 = Inr [FILE_MAGIC, length nb, length data, kind, mode]"
    using assms struct_unpack_header[of "length nb" "length data" kind mode] by (simp add: hd5_def)
  have nbk: "take (align_to (length nb) 4) (drop (length pre + 32) img) = nblock"
    unfolding img_def blk by (simp add: l5 ln)
  have nm: "take (length nb) nblock = nb" by (simp add: nblock_def)
  have dec: "decode nb = Inr nb" using assms by (simp add: decode_def)
  have len: "length (entry_block (nb, data, kind, mode)) = 32 + length nblock + length dblock"
    unfolding blk by (simp add: l5)
  have r1: "f_read img (length pre) 32 = (hd5 @ replicate 12 (CHR 0x00), length pre + 32)"
    unfolding f_read_def hdr by (simp add: l5)
  have r2: "f_read img (length pre + 32) (align_to (length nb) 4) =
      (nblock, length pre + 32 + align_to (length nb) 4)"
    unfolding f_read_def nbk by (simp add: ln)
  show ?thesis
    unfolding inspect_entry_def img_def[symmetric] r1 len
    by (simp add: fields r2 nm dec ln ld l5 FILE_TYPE_FILE_def BLOCK_SIZE_def Let_def)
qed


lemma inspect_loop_blocks:
  assumes "list_all entry_ok es"
  shows "inspect_loop (pre @ concat (map entry_block es) @ post) (length pre) i (length es) =
           (map entry_line es, None)"
  using assms
proof (induction es arbitrary: pre i)
  case Nil
  then show ?case by simp
next
  case (Cons e es)
  obtain nb data kind mode where e: "e = (nb, data, kind, mode)"
    by (cases e) auto
  define img where "img = pre @ concat (map entry_block (e # es)) @ post"
  have ok: "entry_ok (nb, data, kind, mode)" and oks: "list_all entry_ok es"
    using Cons.prems by (simp_all add: e)
  have img1: "img = pre @ entry_block (nb, data, kind, mode) @ (concat (map entry_block es) @ post)"
    by (simp add: img_def e)
  have img2: "img = (pre @ entry_block e) @ concat (map entry_block es) @ post"
    by (simp add: img_def)
  have step: "inspect_entry img (length pre) =
      Listed (if kind = 0 then ''FILE'' else ''DIR '') nb (length data) mode
        (length (pre @ entry_block e))"
    unfolding img1 using inspect_entry_block[OF ok] by (simp add: e)
  have rest: "inspect_loop img (length (pre @ entry_block e)) (Suc i) (length es) =
      (map entry_line es, None)"
    unfolding img2 by (rule Cons.IH[OF oks])
  have line: "entry_line e = Entry (if kind = 0 then ''FILE'' else ''DIR '') nb (length data) mode"
    by (simp add: e)
  show ?case
    unfolding img_def[symmetric] by (simp add: step rest line del: length_append)
qed

lemma inspect_image_layout:
  assumes "list_all entry_ok es" and "length es < 2 ^ 32"
  shows "inspect_simple_fs (image_layout es sz) =
           (TotalFiles (length es) # map entry_line es, None)"
proof -
  define post where "post = replicate (sz - (16 + length (concat (map entry_block es)))) (CHR 0x00)"
  define img where "img = image_layout es sz"
  have img1: "img = MAGIC @ le32 (length es) @ le32 0 @ concat (map entry_block es) @ post"
    by (simp add: img_def image_layout_def post_def)
  have img2: "img = (MAGIC @ le32 (length es) @ le32 0) @ concat (map entry_block es) @ post"
    by (simp add: img1)
  have r1: "f_read img 0 8 = (MAGIC, 8)"
    unfolding f_read_def img1 by simp
  have r2: "f_read img 8 4 = (le32 (length es), 12)"
    unfolding f_read_def img1 by simp
  have r3: "f_read img 12 4 = (le32 0, 16)"
    unfolding f_read_def img1 by simp
  have cnt: "struct_unpack 1 (le32 (length es)) = Inr [length es]"
    using assms(2) chunks4_le32[of "length es" "[]"] by (simp add: struct_unpack_def unpack_I_le32)
  have loop: "inspect_loop img 16 0 (length es) = (map entry_line es, None)"
    unfolding img2 using inspect_loop_blocks[OF assms(1), of "MAGIC @ le32 (length es) @ le32 0" post 0]
    by simp
  show ?thesis
    unfolding inspect_simple_fs_def img_def[symmetric] r1
    using cnt by (simp add: r2 r3 loop)
qed

section \<open>The packer writes the layout\<close>

lemma rglob_paths:
  "item \<in> set (rglob base root) \<Longrightarrow> \<exists>rel. fst item = base @ rel \<and> rel \<noteq> []"
proof (induction base root arbitrary: item rule: rglob.induct)
  case (1 p m cs)
  from "1.prems" have
    "(\<exists>x\<in>set cs. item = (p @ [fst x], stat (snd x)))
      \<or> (\<exists>x\<in>set cs. item \<in> set (rglob (p @ [fst x]) (snd x)))"
    by (auto simp: case_prod_beta)
  then show ?case
  proof
    assume "\<exists>x\<in>set cs. item = (p @ [fst x], stat (snd x))"
    then show ?thesis by auto
  next
    assume "\<exists>x\<in>set cs. item \<in> set (rglob (p @ [fst x]) (snd x))"
    then obtain x where x: "x \<in> set cs" "item \<in> set (rglob (p @ [fst x]) (snd x))" by blast
    from "1.IH"[OF x(1) prod.collapse x(2)]
    obtain rel where "fst item = (p @ [fst x]) @ rel" by auto
    then have "fst item = p @ (fst x # rel)" by simp
    then show ?thesis by blast
  qed
qed simp_all

lemma collect_files_items:
  assumes "item \<in> set (collect_files base (Some root))"
  shows "item \<in> set (rglob base root)" and "is_file item \<or> is_dir item"
  using assms by (auto simp: collect_files_def)

lemma entry_block_not_empty: "entry_block e \<noteq> []"
  by (cases e) (simp add: le32_def)

lemma entry_ok_entry_of:
  "entry_ok (entry_of base item) =
     (utf8_valid (entry_name base item) \<and> length (entry_name base item) < 2 ^ 32
      \<and> length (read_bytes item) < 2 ^ 32)"
  by (simp add: entry_of_def FILE_TYPE_FILE_def FILE_TYPE_DIR_def)

lemma pack_loop_Inr:
  assumes "\<And>item. item \<in> set items \<Longrightarrow>
             (\<exists>rel. fst item = base @ rel \<and> rel \<noteq> []) \<and> (is_file item \<or> is_dir item)"
    and "pack_loop base items acc = Inr packed_files"
  shows "packed_files =
           acc @ map (\<lambda>item. entry_block (entry_of base item)) (filter (\<lambda>item. \<not> skipped item) items)
         \<and> list_all (\<lambda>item. entry_ok (entry_of base item)) (filter (\<lambda>item. \<not> skipped item) items)"
  using assms
proof (induction items arbitrary: acc)
  case Nil
  then show ?case by simp
next
  case (Cons item items)
  obtain rel where rel: "fst item = base @ rel" "rel \<noteq> []" and kind: "is_file item \<or> is_dir item"
    using Cons.prems(1)[of item] by auto
  note pf = pack_file_eq[OF rel]
  have tail: "\<And>it. it \<in> set items \<Longrightarrow>
             (\<exists>rel. fst it = base @ rel \<and> rel \<noteq> []) \<and> (is_file it \<or> is_dir it)"
    using Cons.prems(1) by simp
  show ?case
  proof (cases "skipped item")
    case True
    then have "pack_loop base items acc = Inr packed_files"
      using Cons.prems(2) by (simp add: pf)
    from Cons.IH[OF tail this] show ?thesis using True by simp
  next
    case False
    have ok: "entry_ok (entry_of base item)"
      using Cons.prems(2) False kind
      by (auto simp: pf entry_ok_entry_of split: if_splits)
    then have "pack_file item base = Inr (entry_block (entry_of base item))"
      using False kind by (auto simp: pf entry_ok_entry_of)
    then have "pack_loop base items (acc @ [entry_block (entry_of base item)]) = Inr packed_files"
      using Cons.prems(2) by (simp add: entry_block_not_empty)
    from Cons.IH[OF tail this] show ?thesis using False ok by simp
  qed
qed

lemma entries_items:
  assumes "item \<in> set (entries src_dir root)"
  shows "(\<exists>rel. fst item = src_dir @ rel \<and> rel \<noteq> []) \<and> (is_file item \<or> is_dir item)"
proof -
  have "item \<in> set (collect_files src_dir (Some root))"
    using assms by (simp add: entries_def)
  then show ?thesis
    using collect_files_items[of item src_dir root] rglob_paths[of item src_dir root] by blast
qed

lemma make_simple_fs_layout:
  assumes "make_simple_fs src_dir (Some root) = Inr ((n, sz), img)"
  shows "n = length (entries src_dir root) \<and> n < 2 ^ 32
         \<and> list_all (\<lambda>item. entry_ok (entry_of src_dir item)) (entries src_dir root)
         \<and> img = image_layout (map (entry_of src_dir) (entries src_dir root)) sz
         \<and> sz = length img \<and> 512 dvd sz"
proof -
  obtain packed_files where pl:
    "pack_loop src_dir (collect_files src_dir (Some root)) [] = Inr packed_files"
    using assms by (auto simp: make_simple_fs_def split: sum.splits)
  have items: "\<And>item. item \<in> set (collect_files src_dir (Some root)) \<Longrightarrow>
      (\<exists>rel. fst item = src_dir @ rel \<and> rel \<noteq> []) \<and> (is_file item \<or> is_dir item)"
    using collect_files_items rglob_paths by blast
  from pack_loop_Inr[OF items pl]
  have pf: "packed_files = map (\<lambda>item. entry_block (entry_of src_dir item)) (entries src_dir root)"
    and oks: "list_all (\<lambda>item. entry_ok (entry_of src_dir item)) (entries src_dir root)"
    by (simp_all add: entries_def)
  define body where "body = concat (map entry_block (map (entry_of src_dir) (entries src_dir root)))"
  have cc: "concat packed_files = body"
    by (simp add: pf body_def comp_def)
  define k where "k = length (entries src_dir root)"
  have lpf: "length packed_files = k" by (simp add: pf k_def)
  define written where "written = (MAGIC @ le32 k @ le32 0) @ body"
  define aligned where "aligned = align_to (length written) 512"
  have ge: "length written \<le> aligned"
    unfolding aligned_def by (rule align_to_ge) simp
  have lw: "length written = 16 + length body" by (simp add: written_def)
  have k32: "k < 2 ^ 32"
  proof (rule ccontr)
    assume "\<not> k < 2 ^ 32"
    then have "make_simple_fs src_dir (Some root) = Inl StructError"
      by (simp add: make_simple_fs_def pl lpf struct_pack_two)
    with assms show False by simp
  qed
  have "make_simple_fs src_dir (Some root) =
      Inr ((k, length (written @ replicate (aligned - length written) (CHR 0x00))),
           written @ replicate (aligned - length written) (CHR 0x00))"
    unfolding make_simple_fs_def option.case pl sum.case lpf struct_pack_two Let_def
      BLOCK_SIZE_def cc
    using k32 by (simp add: written_def aligned_def)
  with assms have nk: "n = k"
    and img: "img = written @ replicate (aligned - length written) (CHR 0x00)"
    and szl: "sz = length img"
    by auto
  have sz: "sz = aligned" using ge by (simp add: szl img)
  have dvd: "512 dvd sz" unfolding sz aligned_def by (rule align_to_dvd)
  have "image_layout (map (entry_of src_dir) (entries src_dir root)) sz =
      written @ replicate (aligned - length written) (CHR 0x00)"
    unfolding image_layout_def body_def[symmetric] sz written_def[symmetric] lw
    by (simp add: k_def written_def)
  then have lay: "img = image_layout (map (entry_of src_dir) (entries src_dir root)) sz"
    by (simp only: img)
  have n32: "n < 2 ^ 32" using k32 nk by simp
  show ?thesis
    using nk[unfolded k_def] n32 oks lay szl dvd by blast
qed

lemma pack_loop_ok:
  assumes "\<And>item. item \<in> set items \<Longrightarrow>
             (\<exists>rel. fst item = base @ rel \<and> rel \<noteq> []) \<and> (is_file item \<or> is_dir item)"
    and "list_all (\<lambda>item. entry_ok (entry_of base item)) (filter (\<lambda>item. \<not> skipped item) items)"
  shows "pack_loop base items acc =
           Inr (acc @ map (\<lambda>item. entry_block (entry_of base item))
                        (filter (\<lambda>item. \<not> skipped item) items))"
  using assms
proof (induction items arbitrary: acc)
  case Nil
  then show ?case by simp
next
  case (Cons item items)
  obtain rel where rel: "fst item = base @ rel" "rel \<noteq> []" and kind: "is_file item \<or> is_dir item"
    using Cons.prems(1)[of item] by auto
  note pf = pack_file_eq[OF rel]
  have tail: "\<And>it. it \<in> set items \<Longrightarrow>
             (\<exists>rel. fst it = base @ rel \<and> rel \<noteq> []) \<and> (is_file it \<or> is_dir it)"
    using Cons.prems(1) by simp
  show ?case
  proof (cases "skipped item")
    case True
    then have oks: "list_all (\<lambda>item. entry_ok (entry_of base item)) (filter (\<lambda>item. \<not> skipped item) items)"
      using Cons.prems(2) by simp
    show ?thesis using True Cons.IH[OF tail oks] by (simp add: pf)
  next
    case False
    then have ok: "entry_ok (entry_of base item)"
      and oks: "list_all (\<lambda>item. entry_ok (entry_of base item)) (filter (\<lambda>item. \<not> skipped item) items)"
      using Cons.prems(2) by simp_all
    have "pack_file item base = Inr (entry_block (entry_of base item))"
      using False kind ok by (auto simp: pf entry_ok_entry_of)
    then show ?thesis
      using False Cons.IH[OF tail oks] by (simp add: entry_block_not_empty)
  qed
qed

lemma make_simple_fs_ok:
  assumes "list_all (\<lambda>item. entry_ok (entry_of src_dir item)) (entries src_dir root)"
    and "length (entries src_dir root) < 2 ^ 32"
  shows "make_simple_fs src_dir (Some root) =
     Inr ((length (entries src_dir root), image_size (map (entry_of src_dir) (entries src_dir root))),
          image_layout (map (entry_of src_dir) (entries src_dir root))
            (image_size (map (entry_of src_dir) (entries src_dir root))))"
proof -
  have items: "\<And>item. item \<in> set (collect_files src_dir (Some root)) \<Longrightarrow>
      (\<exists>rel. fst item = src_dir @ rel \<and> rel \<noteq> []) \<and> (is_file item \<or> is_dir item)"
    using collect_files_items rglob_paths by blast
  have pl: "pack_loop src_dir (collect_files src_dir (Some root)) [] =
      Inr (map (\<lambda>item. entry_block (entry_of src_dir item)) (entries src_dir root))"
    using pack_loop_ok[where acc = "[]" and base = src_dir
        and items = "collect_files src_dir (Some root)", OF items] assms(1)
    by (simp add: entries_def)
  define body where "body = concat (map entry_block (map (entry_of src_dir) (entries src_dir root)))"
  have cc: "concat (map (\<lambda>item. entry_block (entry_of src_dir item)) (entries src_dir root)) = body"
    by (simp add: body_def comp_def)
  define k where "k = length (entries src_dir root)"
  define written where "written = (MAGIC @ le32 k @ le32 0) @ body"
  define aligned where "aligned = align_to (length written) 512"
  have ge: "length written \<le> aligned"
    unfolding aligned_def by (rule align_to_ge) simp
  have lw: "length written = 16 + length body" by (simp add: written_def)
  have k32: "k < 2 ^ 32" using assms(2) by (simp add: k_def)
  have m: "make_simple_fs src_dir (Some root) =
      Inr ((k, length (written @ replicate (aligned - length written) (CHR 0x00))),
           written @ replicate (aligned - length written) (CHR 0x00))"
    unfolding make_simple_fs_def option.case pl sum.case length_map k_def[symmetric]
      struct_pack_two Let_def BLOCK_SIZE_def cc
    using k32 by (simp add: written_def aligned_def)
  have sz: "length (written @ replicate (aligned - length written) (CHR 0x00)) = aligned"
    using ge by simp
  have isz: "image_size (map (entry_of src_dir) (entries src_dir root)) = aligned"
    unfolding image_size_def body_def[symmetric] aligned_def lw by (rule refl)
  have "image_layout (map (entry_of src_dir) (entries src_dir root)) aligned =
      written @ replicate (aligned - length written) (CHR 0x00)"
    unfolding image_layout_def body_def[symmetric] written_def[symmetric] lw
    by (simp add: k_def written_def)
  then show ?thesis
    unfolding m sz isz k_def by simp
qed

section \<open>Evaluation on concrete trees\<close>

declare utf8_valid.simps [simp del]

lemma append_le_append [simp]: "(xs @ ys \<le> xs @ zs) = (ys \<le> (zs :: 'a :: linorder list))"
  by (induction xs) auto

lemma name_snoc [simp]: "name (p @ [c]) = c"
  by (simp add: name_def)

lemma align_small:
  "align_to 3 4 = 4" "align_to 13 4 = 16" "align_to 5 512 = 512" "align_to 0 512 = 0"
  "align_to 612 512 = 1024"
  by (simp_all add: align_to_def)

lemma collect_hello: "collect_files src_dir (Some (hello_tree m0 m1 m2)) =
   [(src_dir @ [''bin''], Directory m1), (src_dir @ [''bin'', ''hello.txt''], Regular m2 ''hello'')]"
proof -
  have n: "name (src_dir @ [''bin'', ''hello.txt'']) = ''hello.txt''"
    using name_snoc[of "src_dir @ [''bin'']" "''hello.txt''"] by simp
  show ?thesis
    by (simp add: collect_files_def hello_tree_def suffix_def n)
qed

lemma entries_hello: "entries src_dir (hello_tree m0 m1 m2) =
   [(src_dir @ [''bin''], Directory m1), (src_dir @ [''bin'', ''hello.txt''], Regular m2 ''hello'')]"
proof -
  have n: "name (src_dir @ [''bin'', ''hello.txt'']) = ''hello.txt''"
    using name_snoc[of "src_dir @ [''bin'']" "''hello.txt''"] by simp
  show ?thesis
    by (simp add: entries_def collect_hello skipped_def startswith_dot_def n)
qed

lemma entry_of_bin:
  "entry_of src_dir (src_dir @ [''bin''], Directory m1) = (''bin'', [], FILE_TYPE_DIR, 493)"
  by (simp add: entry_of_def entry_name_def str_def replace_backslash_def)

lemma entry_of_hello:
  "entry_of src_dir (src_dir @ [''bin'', ''hello.txt''], Regular m2 ''hello'')
    = (''bin/hello.txt'', ''hello'', FILE_TYPE_FILE, 420)"
  by (simp add: entry_of_def entry_name_def str_def replace_backslash_def)

lemma utf8_bin: "utf8_valid ''bin''"
  by (simp add: utf8_valid.simps in_range_def)

lemma utf8_hello: "utf8_valid ''bin/hello.txt''"
  by (simp add: utf8_valid.simps in_range_def)

lemma hello_lengths:
  "length ''bin'' = 3" "length ''bin/hello.txt'' = 13" "length ''hello'' = 5"
  "length ([] :: string) = 0"
  by simp_all

lemma hello_entries_ok:
  "list_all (\<lambda>item. entry_ok (entry_of src_dir item)) (entries src_dir (hello_tree m0 m1 m2))"
  unfolding entries_hello list.pred_inject entry_of_bin entry_of_hello entry_ok.simps hello_lengths
  by (simp add: utf8_bin utf8_hello FILE_TYPE_DIR_def FILE_TYPE_FILE_def)

lemma bin_block:
  "entry_block (''bin'', [], FILE_TYPE_DIR, 493) =
     (le32 FILE_MAGIC @ le32 3 @ le32 0 @ le32 FILE_TYPE_DIR @ le32 493 @ replicate 12 (CHR 0x00))
     @ (''bin'' @ replicate 1 (CHR 0x00))"
  unfolding entry_block.simps hello_lengths align_small by simp

lemma hello_block:
  "entry_block (''bin/hello.txt'', ''hello'', FILE_TYPE_FILE, 420) =
     (le32 FILE_MAGIC @ le32 13 @ le32 5 @ le32 FILE_TYPE_FILE @ le32 420 @ replicate 12 (CHR 0x00))
     @ (''bin/hello.txt'' @ replicate 3 (CHR 0x00))
     @ (''hello'' @ replicate 507 (CHR 0x00))"
  unfolding entry_block.simps hello_lengths align_small by simp

lemma hello_blocks_length:
  "length (entry_block (''bin'', [], FILE_TYPE_DIR, 493)) = 36"
  "length (entry_block (''bin/hello.txt'', ''hello'', FILE_TYPE_FILE, 420)) = 560"
  unfolding length_entry_block hello_lengths align_small by simp_all

lemma hello_image_size:
  "image_size [(''bin'', [], FILE_TYPE_DIR, 493), (''bin/hello.txt'', ''hello'', FILE_TYPE_FILE, 420)] = 1024"
  unfolding image_size_def concat.simps list.map length_append hello_blocks_length
  by (simp add: align_small)

lemma hello_image_aux:
  "make_simple_fs src_dir (Some (hello_tree m0 m1 m2)) =
     Inr ((2, 1024),
          image_layout [(''bin'', [], FILE_TYPE_DIR, 493),
                        (''bin/hello.txt'', ''hello'', FILE_TYPE_FILE, 420)] 1024)"
proof -
  have l: "length (entries src_dir (hello_tree m0 m1 m2)) < 2 ^ 32"
    by (simp add: entries_hello)
  show ?thesis
    unfolding make_simple_fs_ok[OF hello_entries_ok l] entries_hello list.map
      entry_of_bin entry_of_hello hello_image_size
    by simp
qed

lemma hello_layout:
  "image_layout [(''bin'', [], FILE_TYPE_DIR, 493),
                 (''bin/hello.txt'', ''hello'', FILE_TYPE_FILE, 420)] 1024 =
    (MAGIC @ le32 2 @ le32 0)
    @ ((le32 FILE_MAGIC @ le32 3 @ le32 0 @ le32 FILE_TYPE_DIR @ le32 493 @ replicate 12 (CHR 0x00))
       @ (''bin'' @ replicate 1 (CHR 0x00)))
    @ ((le32 FILE_MAGIC @ le32 13 @ le32 5 @ le32 FILE_TYPE_FILE @ le32 420 @ replicate 12 (CHR 0x00))
       @ (''bin/hello.txt'' @ replicate 3 (CHR 0x00))
       @ (''hello'' @ replicate 507 (CHR 0x00)))
    @ replicate 412 (CHR 0x00)"
proof -
  have l: "length (concat (map entry_block [(''bin'', [], FILE_TYPE_DIR, 493),
      (''bin/hello.txt'', ''hello'', FILE_TYPE_FILE, 420)])) = 596"
    unfolding concat.simps list.map length_append hello_blocks_length by simp
  have n: "length [(''bin'', ([]::string), FILE_TYPE_DIR, 493::nat),
      (''bin/hello.txt'', ''hello'', FILE_TYPE_FILE, 420)] = 2"
    by simp
  show ?thesis
    unfolding image_layout_def l n list.map concat.simps bin_block hello_block
    by simp
qed

section \<open>The example: \<open>bin/hello.txt\<close>\<close>

lemma pack_hello_any_mode:
  "pack_file ([''bin'', ''hello.txt''], Regular m ''hello'') [] =
     Inr (entry_block (''bin/hello.txt'', ''hello'', FILE_TYPE_FILE, 420))"
proof -
  have nm: "entry_name [] ([''bin'', ''hello.txt''], Regular m ''hello'') = ''bin/hello.txt''"
    by (simp add: entry_name_def str_def replace_backslash_def)
  have sk: "\<not> skipped ([''bin'', ''hello.txt''], Regular m ''hello'')"
    by (simp add: skipped_def name_def startswith_dot_def)
  have e: "entry_of [] ([''bin'', ''hello.txt''], Regular m ''hello'')
      = (''bin/hello.txt'', ''hello'', FILE_TYPE_FILE, 420)"
    using entry_of_hello[of "[]" m] by simp
  show ?thesis
    unfolding pack_file_eq[of "([''bin'', ''hello.txt''], Regular m ''hello'')" "[]" "[''bin'', ''hello.txt'']", simplified]
      nm e hello_lengths
    using sk utf8_hello by simp
qed


text \<open>
  C4, as stated. The claim gives the file entry 32 + 8 + 512 bytes, which would put the
  five bytes of the content at offset 16 + (32 + 4) + (32 + 8) of the image. The block
  \<open>pack_file\<close> returns for \<open>bin/hello.txt\<close> has another length, and the image does not
  hold \<open>hello\<close> at that offset: the bytes there still belong to the name.
\<close>

theorem hello_claimed_layout_counterexample:
  "map_sum id length (pack_file ([''bin'', ''hello.txt''], Regular 420 ''hello'') [])
     \<noteq> Inr (32 + 8 + 512)
   \<and> map_sum id (take 5 \<circ> drop (16 + (32 + 4) + (32 + 8)) \<circ> snd)
        (make_simple_fs [] (Some (hello_tree 493 493 420))) \<noteq> Inr ''hello''"
proof -
  have a: "map_sum id length (pack_file ([''bin'', ''hello.txt''], Regular 420 ''hello'') []) = Inr 560"
    unfolding pack_hello_any_mode map_sum.simps hello_blocks_length by simp
  have b: "map_sum id (take 5 \<circ> drop (16 + (32 + 4) + (32 + 8)) \<circ> snd)
        (make_simple_fs [] (Some (hello_tree 493 493 420))) = Inr ''o.txt''"
    unfolding hello_image_aux hello_layout by simp
  show ?thesis unfolding a b by simp
qed

text \<open>
  C4, amended. Packing the tree with the directory \<open>bin\<close> and the file
  \<open>bin/hello.txt\<close> (content \<open>hello\<close>), whatever the permissions in the source tree,
  returns 2 entries and a size of 1024 bytes, and writes: the header of 16 bytes; the
  directory entry of 32 + 4 bytes (mode \<open>0o755\<close> = 493, name \<open>bin\<close> padded to 4 bytes, no
  data); the file entry of 32 + 16 + 512 bytes (mode \<open>0o644\<close> = 420, the 13 bytes of the
  name \<open>bin/hello.txt\<close> padded to 16, the content padded to 512); 412 zero bytes up to the
  next multiple of 512.
\<close>

theorem hello_image:
  "make_simple_fs src_dir (Some (hello_tree m0 m1 m2)) =
     Inr ((2, 1024),
       (MAGIC @ le32 2 @ le32 0)
       @ ((le32 FILE_MAGIC @ le32 3 @ le32 0 @ le32 FILE_TYPE_DIR @ le32 493
             @ replicate 12 (CHR 0x00))
          @ (''bin'' @ replicate 1 (CHR 0x00)))
       @ ((le32 FILE_MAGIC @ le32 13 @ le32 5 @ le32 FILE_TYPE_FILE @ le32 420
             @ replicate 12 (CHR 0x00))
          @ (''bin/hello.txt'' @ replicate 3 (CHR 0x00))
          @ (''hello'' @ replicate 507 (CHR 0x00)))
       @ replicate 412 (CHR 0x00))"
  unfolding hello_image_aux hello_layout by (rule refl)

section \<open>Packing, then inspecting\<close>

lemma entry_line_entry_of:
  "entry_line (entry_of base item) =
     Entry (if is_file item then ''FILE'' else ''DIR '') (entry_name base item)
       (length (read_bytes item)) (if is_file item then 420 else 493)"
  by (simp add: entry_of_def FILE_TYPE_FILE_def FILE_TYPE_DIR_def)

lemma listing_entry_lines:
  "listing src_dir root = map entry_line (map (entry_of src_dir) (entries src_dir root))"
  by (simp add: listing_def entry_line_entry_of)

lemma inspect_packed_image:
  assumes "make_simple_fs src_dir (Some root) = Inr ((n, sz), img)"
  shows "inspect_simple_fs img = (TotalFiles n # listing src_dir root, None)"
proof -
  from make_simple_fs_layout[OF assms]
  have n: "n = length (entries src_dir root)" and n32: "n < 2 ^ 32"
    and oks: "list_all (\<lambda>item. entry_ok (entry_of src_dir item)) (entries src_dir root)"
    and img: "img = image_layout (map (entry_of src_dir) (entries src_dir root)) sz"
    by blast+
  have oks': "list_all entry_ok (map (entry_of src_dir) (entries src_dir root))"
    using oks by (simp add: list_all_iff)
  have l: "length (map (entry_of src_dir) (entries src_dir root)) < 2 ^ 32"
    using n n32 by simp
  show ?thesis
    unfolding img inspect_image_layout[OF oks' l] listing_entry_lines using n by simp
qed





lemma sample_sorted:
  "sort_key fst (rglob [''src''] sample_tree) =
     [([''src'', ''.git''], Directory 448), ([''src'', ''a''], Regular 384 ''hi''),
      ([''src'', ''b.o''], Regular 420 ''x''), ([''src'', ''d''], Directory 493)]"
  by (simp add: sample_tree_def)

lemma collect_sample:
  "collect_files [''src''] (Some sample_tree) =
     [([''src'', ''.git''], Directory 448), ([''src'', ''d''], Directory 493),
      ([''src'', ''a''], Regular 384 ''hi'')]"
  unfolding collect_files_def option.case sample_sorted
  by (simp add: suffix_def name_def)

lemma entries_sample:
  "entries [''src''] sample_tree =
     [([''src'', ''d''], Directory 493), ([''src'', ''a''], Regular 384 ''hi'')]"
  unfolding entries_def collect_sample
  by (simp add: skipped_def name_def startswith_dot_def)

lemma entry_of_sample:
  "entry_of [''src''] ([''src'', ''d''], Directory 493) = (''d'', [], FILE_TYPE_DIR, 493)"
  "entry_of [''src''] ([''src'', ''a''], Regular 384 ''hi'') = (''a'', ''hi'', FILE_TYPE_FILE, 420)"
  by (simp_all add: entry_of_def entry_name_def str_def replace_backslash_def)

lemma utf8_short: "utf8_valid ''d''" "utf8_valid ''a''" "utf8_valid ''a/b''"
  by (simp_all add: utf8_valid.simps in_range_def)

lemma sample_lengths:
  "length ''d'' = 1" "length ''a'' = 1" "length ''hi'' = 2" "length ''a/b'' = 3"
  by simp_all

lemma align_small2: "align_to 1 4 = 4" "align_to 2 512 = 512" "align_to 600 512 = 1024"
  "align_to 52 512 = 512"
  by (simp_all add: align_to_def)

lemma sample_entries_ok:
  "list_all (\<lambda>item. entry_ok (entry_of [''src''] item)) (entries [''src''] sample_tree)"
  unfolding entries_sample list.pred_inject entry_of_sample entry_ok.simps sample_lengths
    hello_lengths
  by (simp add: utf8_short FILE_TYPE_DIR_def FILE_TYPE_FILE_def)

lemma sample_image_size:
  "image_size [(''d'', [], FILE_TYPE_DIR, 493), (''a'', ''hi'', FILE_TYPE_FILE, 420)] = 1024"
  unfolding image_size_def concat.simps list.map length_append length_entry_block
    sample_lengths hello_lengths align_small align_small2
  by (simp add: align_small2)

lemma make_sample:
  "make_simple_fs [''src''] (Some sample_tree) = Inr ((2, 1024), sample_image)"
proof -
  have l: "length (entries [''src''] sample_tree) < 2 ^ 32"
    by (simp add: entries_sample)
  show ?thesis
    unfolding make_simple_fs_ok[OF sample_entries_ok l] entries_sample list.map
      entry_of_sample sample_image_size sample_image_def
    by simp
qed









section \<open>Filtering\<close>

lemma collect_files_split:
  "collect_files src_dir (Some root) =
     filter is_dir (sort_key fst (rglob src_dir root)) @
     filter (\<lambda>item. is_file item
               \<and> suffix (fst item) \<notin> set [''.d'', ''.o'', ''.a'', ''.rlib'']
               \<and> name (fst item) \<notin> set [''Cargo.lock'', ''.gitignore''])
       (sort_key fst (rglob src_dir root))"
  by (simp add: collect_files_def)

lemma not_file_and_dir: "is_file item \<Longrightarrow> \<not> is_dir item"
  by (cases item rule: is_file.cases) auto

lemma entries_kept:
  assumes "item \<in> set (entries src_dir root)"
  shows "item \<in> set (rglob src_dir root) \<and> \<not> startswith_dot (name (fst item))
         \<and> \<not> (is_file item \<and> suffix (fst item) \<in> set [''.d'', ''.o'', ''.a'', ''.rlib''])
         \<and> name (fst item) \<notin> set [''Cargo.lock'', ''Cargo.toml'', ''.gitignore'']"
proof -
  have c: "item \<in> set (collect_files src_dir (Some root))" and s: "\<not> skipped item"
    using assms by (simp_all add: entries_def)
  have dot: "\<not> startswith_dot (name (fst item))" and cargo: "name (fst item) \<noteq> ''Cargo.lock''"
    "name (fst item) \<noteq> ''Cargo.toml''"
    using s by (simp_all add: skipped_def)
  have "name (fst item) \<noteq> ''.gitignore''"
    using dot by (auto simp: startswith_dot_def)
  moreover have "\<not> (is_file item \<and> suffix (fst item) \<in> set [''.d'', ''.o'', ''.a'', ''.rlib''])"
    using c unfolding collect_files_split by (auto dest: not_file_and_dir)
  ultimately show ?thesis
    using collect_files_items(1)[OF c] dot cargo by simp
qed

lemma hidden_packs_to_nothing:
  assumes "item \<in> set (rglob src_dir root)" and "startswith_dot (name (fst item))"
  shows "pack_file item src_dir = Inr []"
proof -
  obtain rel where "fst item = src_dir @ rel" "rel \<noteq> []"
    using rglob_paths[OF assms(1)] by blast
  from pack_file_eq[OF this] show ?thesis
    using assms(2) by (simp add: skipped_def)
qed

lemma artifact_not_collected:
  assumes "is_file item" and "suffix (fst item) \<in> set [''.d'', ''.o'', ''.a'', ''.rlib'']"
  shows "item \<notin> set (collect_files src_dir (Some root))"
  using assms unfolding collect_files_split by (auto dest: not_file_and_dir)

text \<open>
  What the filters guarantee. Whenever packing an existing source tree succeeds, the image
  is the header followed by the blocks of the entries of \<open>entries\<close> and the final
  padding, and each of these entries is an item of the tree whose own name (the last
  component of its path) does not begin with a dot, that is not a regular file with one
  of the extensions \<open>.d\<close>, \<open>.o\<close>, \<open>.a\<close>, \<open>.rlib\<close>, and whose own name is none of
  \<open>Cargo.lock\<close>, \<open>Cargo.toml\<close>, \<open>.gitignore\<close>. An item with a leading dot in its own
  name gives the empty block, whatever its name bytes or its size, and a file with such
  an extension is not collected at all.
\<close>

lemma filter_invariant:
  assumes "make_simple_fs src_dir (Some root) = Inr ((n, sz), img)"
  shows "img = image_layout (map (entry_of src_dir) (entries src_dir root)) sz
       \<and> (\<forall>item\<in>set (entries src_dir root).
             item \<in> set (rglob src_dir root)
             \<and> \<not> startswith_dot (name (fst item))
             \<and> \<not> (is_file item \<and> suffix (fst item) \<in> set [''.d'', ''.o'', ''.a'', ''.rlib''])
             \<and> name (fst item) \<notin> set [''Cargo.lock'', ''Cargo.toml'', ''.gitignore''])
       \<and> (\<forall>item\<in>set (rglob src_dir root).
             (startswith_dot (name (fst item)) \<longrightarrow> pack_file item src_dir = Inr [])
             \<and> (is_file item \<and> suffix (fst item) \<in> set [''.d'', ''.o'', ''.a'', ''.rlib'']
                  \<longrightarrow> item \<notin> set (collect_files src_dir (Some root))))"
  using make_simple_fs_layout[OF assms] entries_kept hidden_packs_to_nothing
    artifact_not_collected
  by blast

lemma hidden_sorted:
  "sort_key fst (rglob [''src''] hidden_dir_tree) =
     [([''src'', ''.git''], Directory 493), ([''src'', ''.git'', ''config''], Regular 420 ''x'')]"
  by (simp add: hidden_dir_tree_def)

lemma entries_hidden:
  "entries [''src''] hidden_dir_tree = [([''src'', ''.git'', ''config''], Regular 420 ''x'')]"
  unfolding entries_def collect_files_def option.case hidden_sorted
  by (simp add: skipped_def name_def startswith_dot_def suffix_def)

lemma entry_of_hidden:
  "entry_of [''src''] ([''src'', ''.git'', ''config''], Regular 420 ''x'')
     = (''.git/config'', ''x'', FILE_TYPE_FILE, 420)"
  by (simp add: entry_of_def entry_name_def str_def replace_backslash_def)

lemma hidden_lengths: "length ''.git/config'' = 11" "length ''x'' = 1"
  by simp_all

lemma utf8_hidden: "utf8_valid ''.git/config''"
  by (simp add: utf8_valid.simps in_range_def)

lemma align_small3: "align_to 11 4 = 12" "align_to 1 512 = 512" "align_to 572 512 = 1024"
  by (simp_all add: align_to_def)

lemma hidden_entries_ok:
  "list_all (\<lambda>item. entry_ok (entry_of [''src''] item)) (entries [''src''] hidden_dir_tree)"
  unfolding entries_hidden list.pred_inject entry_of_hidden entry_ok.simps hidden_lengths
  by (simp add: utf8_hidden FILE_TYPE_FILE_def)

lemma make_hidden:
  "make_simple_fs [''src''] (Some hidden_dir_tree) =
     Inr ((1, 1024), image_layout [(''.git/config'', ''x'', FILE_TYPE_FILE, 420)] 1024)"
proof -
  have l: "length (entries [''src''] hidden_dir_tree) < 2 ^ 32"
    by (simp add: entries_hidden)
  have s: "image_size [(''.git/config'', ''x'', FILE_TYPE_FILE, 420)] = 1024"
    unfolding image_size_def concat.simps list.map length_append length_entry_block
      hidden_lengths align_small3
    by (simp add: align_small3)
  show ?thesis
    unfolding make_simple_fs_ok[OF hidden_entries_ok l] entries_hidden list.map
      entry_of_hidden s
    by simp
qed

lemma listing_hidden:
  "listing [''src''] hidden_dir_tree = [Entry ''FILE'' ''.git/config'' 1 420]"
  unfolding listing_def entries_hidden
  by (simp add: entry_name_def str_def replace_backslash_def)

text \<open>
  C5. The test for hidden names looks at the own name of an item only, not at the
  directories above it. For the tree with the hidden directory \<open>.git\<close> that holds the
  file \<open>config\<close>, the directory is skipped but the file below it is packed: the image
  has one entry, and the inspector lists it under the name \<open>.git/config\<close>, which begins
  with a dot. A hidden entry, one level down, is in the packed output.
\<close>

theorem hidden_directory_content_packed:
  "pack_then_inspect [''src''] (Some hidden_dir_tree) =
     Inr ([TotalFiles 1, Entry ''FILE'' ''.git/config'' 1 420], None)
   \<and> startswith_dot ''.git/config''"
proof -
  have "pack_then_inspect [''src''] (Some hidden_dir_tree) =
      Inr (inspect_simple_fs (image_layout [(''.git/config'', ''x'', FILE_TYPE_FILE, 420)] 1024))"
    by (simp add: pack_then_inspect_def make_hidden)
  also have "\<dots> = Inr ([TotalFiles 1, Entry ''FILE'' ''.git/config'' 1 420], None)"
    unfolding inspect_packed_image[OF make_hidden] listing_hidden by (rule refl)
  finally show ?thesis
    by (simp add: startswith_dot_def)
qed

section \<open>Order of the stream\<close>

lemma sorted_filter_key: "sorted (map f xs) \<Longrightarrow> sorted (map f (filter P xs))"
  by (induction xs) auto

lemma entries_split:
  "entries src_dir root =
     filter (\<lambda>item. \<not> skipped item) (filter is_dir (sort_key fst (rglob src_dir root))) @
     filter (\<lambda>item. \<not> skipped item)
       (filter (\<lambda>item. is_file item
               \<and> suffix (fst item) \<notin> set [''.d'', ''.o'', ''.a'', ''.rlib'']
               \<and> name (fst item) \<notin> set [''Cargo.lock'', ''.gitignore''])
       (sort_key fst (rglob src_dir root)))"
  by (simp add: entries_def collect_files_split)

lemma entries_dirs_then_files:
  "entries src_dir root = filter is_dir (entries src_dir root) @ filter is_file (entries src_dir root)"
  "sorted (map fst (filter is_dir (entries src_dir root)))"
  "sorted (map fst (filter is_file (entries src_dir root)))"
proof -
  define L where "L = sort_key fst (rglob src_dir root)"
  define D where "D = filter (\<lambda>item. \<not> skipped item) (filter is_dir L)"
  define F where "F = filter (\<lambda>item. \<not> skipped item)
       (filter (\<lambda>item. is_file item
               \<and> suffix (fst item) \<notin> set [''.d'', ''.o'', ''.a'', ''.rlib'']
               \<and> name (fst item) \<notin> set [''Cargo.lock'', ''.gitignore'']) L)"
  have e: "entries src_dir root = D @ F"
    unfolding entries_split D_def F_def L_def by (rule refl)
  have d: "\<forall>item\<in>set D. is_dir item \<and> \<not> is_file item"
    using not_file_and_dir by (auto simp: D_def)
  have f: "\<forall>item\<in>set F. is_file item \<and> \<not> is_dir item"
    using not_file_and_dir by (auto simp: F_def)
  have fd: "filter is_dir (D @ F) = D" using d f by (simp add: filter_id_conv filter_empty_conv)
  have ff: "filter is_file (D @ F) = F" using d f by (simp add: filter_id_conv filter_empty_conv)
  have sl: "sorted (map fst L)" by (simp add: L_def)
  show "entries src_dir root = filter is_dir (entries src_dir root) @ filter is_file (entries src_dir root)"
    unfolding e fd ff by (rule refl)
  have sD: "sorted (map fst D)" unfolding D_def by (intro sorted_filter_key sl)
  have sF: "sorted (map fst F)" unfolding F_def by (intro sorted_filter_key sl)
  show "sorted (map fst (filter is_dir (entries src_dir root)))"
    unfolding e fd by (rule sD)
  show "sorted (map fst (filter is_file (entries src_dir root)))"
    unfolding e ff by (rule sF)
qed

lemma dirs_before_files_index:
  assumes "es = filter is_dir es @ filter is_file es"
    and "i < length es" and "j < length es" and "is_dir (es ! i)" and "is_file (es ! j)"
  shows "i < j"
proof -
  define D where "D = filter is_dir es"
  define F where "F = filter is_file es"
  have e: "es = D @ F" using assms(1) by (simp add: D_def F_def)
  have i: "i < length D"
  proof (rule ccontr)
    assume "\<not> i < length D"
    then have "es ! i = F ! (i - length D)" "i - length D < length F"
      using assms(2) e by (auto simp: nth_append)
    then have "is_file (es ! i)" using nth_mem[of "i - length D" F] by (auto simp: F_def)
    with assms(4) not_file_and_dir show False by blast
  qed
  have "\<not> j < length D"
  proof
    assume "j < length D"
    then have "es ! j = D ! j" using e by (metis nth_append)
    then have "is_dir (es ! j)" using nth_mem[OF \<open>j < length D\<close>] by (auto simp: D_def)
    with assms(5) not_file_and_dir show False by blast
  qed
  with i show ?thesis by simp
qed

text \<open>
  C6. Whenever packing an existing source tree succeeds, the entries of the image are,
  in the order of the stream, the directories followed by the files, each group sorted by
  path (paths are compared component by component, as \<open>sorted\<close> compares \<open>pathlib\<close>
  paths). So every directory entry comes before every file entry, in particular before
  the file entries below it.
\<close>

theorem directories_before_files:
  assumes "make_simple_fs src_dir (Some root) = Inr ((n, sz), img)"
  shows "img = image_layout (map (entry_of src_dir) (entries src_dir root)) sz
       \<and> entries src_dir root =
           filter is_dir (entries src_dir root) @ filter is_file (entries src_dir root)
       \<and> sorted (map fst (filter is_dir (entries src_dir root)))
       \<and> sorted (map fst (filter is_file (entries src_dir root)))
       \<and> (\<forall>i j. i < length (entries src_dir root) \<and> j < length (entries src_dir root)
                \<and> is_dir (entries src_dir root ! i) \<and> is_file (entries src_dir root ! j)
              \<longrightarrow> i < j)"
  using make_simple_fs_layout[OF assms] entries_dirs_then_files[of src_dir root]
    dirs_before_files_index[OF entries_dirs_then_files(1)[of src_dir root]]
  by blast

theorem directories_before_files_witness:
  "make_simple_fs [''src''] (Some sample_tree) = Inr ((2, 1024), sample_image)
   \<and> sample_image = image_layout (map (entry_of [''src'']) (entries [''src''] sample_tree)) 1024
   \<and> entries [''src''] sample_tree =
        [([''src'', ''d''], Directory 493)] @ [([''src'', ''a''], Regular 384 ''hi'')]
   \<and> sorted (map fst (filter is_dir (entries [''src''] sample_tree)))
   \<and> is_dir (entries [''src''] sample_tree ! 0) \<and> is_file (entries [''src''] sample_tree ! 1)
   \<and> (0 :: nat) < 1"
proof -
  note t = directories_before_files[OF make_sample]
  from t
  have "sample_image = image_layout (map (entry_of [''src'']) (entries [''src''] sample_tree)) 1024"
    and "sorted (map fst (filter is_dir (entries [''src''] sample_tree)))"
    by blast+
  then show ?thesis
    using make_sample by (simp add: entries_sample)
qed

section \<open>The mode field\<close>

lemma pack_file_shape:
  assumes "pack_file item base = Inr packed" and "packed \<noteq> []"
  shows "(is_file item \<or> is_dir item) \<and>
         (\<exists>nb. packed = entry_block (nb, read_bytes item,
                   if is_file item then FILE_TYPE_FILE else FILE_TYPE_DIR,
                   if is_file item then 420 else 493))"
proof (cases "relative_to (fst item) base")
  case None
  then show ?thesis using assms by (simp add: pack_file_def)
next
  case (Some rel_path)
  have dir_data: "\<not> is_file item \<Longrightarrow> read_bytes item = []"
    by (cases item rule: is_file.cases) auto
  show ?thesis
  proof (cases "encode (replace_backslash (str rel_path))")
    case (Inl e)
    then show ?thesis
      using assms Some by (simp add: pack_file_def split: if_splits)
  next
    case (Inr name_bytes)
    show ?thesis
      using assms unfolding pack_file_def Some option.case Inr sum.case struct_pack_header
      by (auto simp: Let_def BLOCK_SIZE_def dir_data split: if_splits)
  qed
qed

lemma entry_block_mode_field:
  "take 4 (drop 16 (entry_block (nb, data, kind, mode))) = le32 mode"
  by simp

text \<open>
  C9. Every block \<open>pack_file\<close> returns for an entry it writes belongs to a regular file
  or to a directory, and its mode field (bytes 16 to 19 of the header, little-endian) is
  \<open>0o644\<close> = 420 for a regular file and \<open>0o755\<close> = 493 for a directory. The permissions
  of the source entry (the first field of \<open>Regular\<close> and \<open>Directory\<close>) have no part in it.
\<close>

theorem pack_file_mode:
  assumes "pack_file item base = Inr packed" and "packed \<noteq> []"
  shows "(is_file item \<or> is_dir item)
       \<and> take 4 (drop 16 packed) = le32 (if is_file item then 420 else 493)
       \<and> unpack_I (take 4 (drop 16 packed)) = (if is_file item then 420 else 493)"
proof -
  from pack_file_shape[OF assms] obtain nb where
    k: "is_file item \<or> is_dir item" and
    p: "packed = entry_block (nb, read_bytes item,
                   if is_file item then FILE_TYPE_FILE else FILE_TYPE_DIR,
                   if is_file item then 420 else 493)"
    by blast
  have m: "take 4 (drop 16 packed) = le32 (if is_file item then 420 else 493)"
    unfolding p by (rule entry_block_mode_field)
  have "unpack_I (le32 (if is_file item then 420 else 493)) = (if is_file item then 420 else 493)"
    by (rule unpack_I_le32) simp
  with k m show ?thesis by simp
qed

theorem pack_file_mode_witness:
  "pack_file ([''bin'', ''hello.txt''], Regular 511 ''hello'') [] =
     Inr (entry_block (''bin/hello.txt'', ''hello'', FILE_TYPE_FILE, 420))
   \<and> entry_block (''bin/hello.txt'', ''hello'', FILE_TYPE_FILE, 420) \<noteq> []
   \<and> is_file ([''bin'', ''hello.txt''], Regular 511 ''hello'')
   \<and> unpack_I (take 4 (drop 16 (entry_block (''bin/hello.txt'', ''hello'', FILE_TYPE_FILE, 420))))
       = 420"
  using pack_file_mode[OF pack_hello_any_mode[of 511] entry_block_not_empty]
    pack_hello_any_mode[of 511] entry_block_not_empty[of "(''bin/hello.txt'', ''hello'', FILE_TYPE_FILE, 420)"]
  by simp

lemma image_layout_listing:
  "map entry_line es =
     map (\<lambda>(nb, data, kind, mode).
            Entry (if kind = 0 then ''FILE'' else ''DIR '') nb (length data) mode) es"
  by (induction es) auto

section \<open>Determinism\<close>

lemma distinct_map_insort_key:
  "distinct (map f (insort_key f x xs)) = (f x \<notin> f ` set xs \<and> distinct (map f xs))"
  by (induction xs) (auto simp: set_insort_key)

lemma distinct_map_sort_key: "distinct (map f (sort_key f xs)) = distinct (map f xs)"
  by (induction xs) (simp_all add: distinct_map_insort_key)

lemma sort_key_unique:
  assumes "distinct (map f xs)" and "distinct (map f ys)" and "set xs = set ys"
  shows "sort_key f xs = sort_key f ys"
proof -
  have "map f (sort_key f xs) = map f (sort_key f ys)"
  proof (rule sorted_distinct_set_unique)
    show "sorted (map f (sort_key f xs))" "sorted (map f (sort_key f ys))" by simp_all
    show "distinct (map f (sort_key f xs))" "distinct (map f (sort_key f ys))"
      using assms by (simp_all add: distinct_map_sort_key)
    show "set (map f (sort_key f xs)) = set (map f (sort_key f ys))"
      using assms(3) by simp
  qed
  moreover have "inj_on f (set (sort_key f xs) \<union> set (sort_key f ys))"
    using assms by (simp add: distinct_map)
  ultimately show ?thesis
    by (simp add: inj_on_map_eq_map)
qed

lemma make_simple_fs_collect:
  assumes "collect_files src_dir (Some t1) = collect_files src_dir (Some t2)"
  shows "make_simple_fs src_dir (Some t1) = make_simple_fs src_dir (Some t2)"
  unfolding make_simple_fs_def option.case assms by (rule refl)

text \<open>
  C8. The result of packing, the image byte for byte and the returned pair, is a function
  of the contents of the source tree: two trees in which \<open>rglob\<close> finds the same paths
  with the same kind and the same content give the same result, in whatever order the
  operating system enumerates the entries of their directories (no path being listed
  twice, as in every file system). In particular packing an unchanged tree twice gives
  identical images.
\<close>

theorem pack_deterministic:
  assumes "set (rglob src_dir t1) = set (rglob src_dir t2)"
    and "distinct (map fst (rglob src_dir t1))"
    and "distinct (map fst (rglob src_dir t2))"
  shows "make_simple_fs src_dir (Some t1) = make_simple_fs src_dir (Some t2)"
proof -
  have "sort_key fst (rglob src_dir t1) = sort_key fst (rglob src_dir t2)"
    using assms by (intro sort_key_unique)
  then have "collect_files src_dir (Some t1) = collect_files src_dir (Some t2)"
    by (simp add: collect_files_def)
  then show ?thesis by (rule make_simple_fs_collect)
qed

theorem pack_deterministic_witness:
  "set (rglob [''src''] sample_tree) = set (rglob [''src''] sample_tree_reordered)
   \<and> distinct (map fst (rglob [''src''] sample_tree))
   \<and> distinct (map fst (rglob [''src''] sample_tree_reordered))
   \<and> rglob [''src''] sample_tree \<noteq> rglob [''src''] sample_tree_reordered
   \<and> make_simple_fs [''src''] (Some sample_tree_reordered) = Inr ((2, 1024), sample_image)"
proof -
  have s: "set (rglob [''src''] sample_tree) = set (rglob [''src''] sample_tree_reordered)"
    by (auto simp: sample_tree_def sample_tree_reordered_def)
  have d1: "distinct (map fst (rglob [''src''] sample_tree))"
    by (simp add: sample_tree_def)
  have d2: "distinct (map fst (rglob [''src''] sample_tree_reordered))"
    by (simp add: sample_tree_reordered_def)
  have n: "rglob [''src''] sample_tree \<noteq> rglob [''src''] sample_tree_reordered"
    by (simp add: sample_tree_def sample_tree_reordered_def)
  show ?thesis
    using pack_deterministic[OF s d1 d2] s d1 d2 n make_sample by simp
qed

section \<open>Corrupting the magic of an entry\<close>

lemma f_read_update:
  assumes "pos + length (take n (drop pos img)) \<le> j"
  shows "f_read (img[j := b]) pos n = f_read img pos n"
proof (cases "j < length img")
  case False
  then have "length img \<le> j" by simp
  then have "img[j := b] = img" by (rule list_update_beyond)
  then show ?thesis by (simp only:)
next
  case True
  have pj: "pos \<le> j" using assms by simp
  have "n \<le> j - pos"
  proof (rule ccontr)
    assume "\<not> n \<le> j - pos"
    then have "length (take n (drop pos img)) > j - pos"
      using True pj by simp
    with assms pj show False by (simp add: min_def split: if_splits)
  qed
  then have "take n (drop pos (img[j := b])) = take n (drop pos img)"
    using pj by (simp add: drop_update_swap)
  then show ?thesis by (simp add: f_read_def)
qed

lemma le32_unpack_I:
  "le32 (unpack_I [a, b, c, d]) = [a, b, c, d]"
proof -
  define A B C D where "A = (of_char a :: nat)" and "B = (of_char b :: nat)"
    and "C = (of_char c :: nat)" and "D = (of_char d :: nat)"
  have lt: "A < 256" "B < 256" "C < 256" "D < 256"
    by (simp_all add: A_def B_def C_def D_def)
  define Y where "Y = C + 256 * D"
  define X where "X = B + 256 * Y"
  define n where "n = unpack_I [a, b, c, d]"
  have n: "n = A + 256 * X"
    by (simp add: n_def unpack_I_def A_def B_def C_def D_def X_def Y_def)
  have d1: "n div 256 = X" using lt(1) by (simp add: n)
  have d2: "n div 65536 = Y"
    using lt(2) d1 div_mult2_eq[of n 256 256] by (simp add: X_def)
  have d3: "n div 16777216 = D"
    using lt(3) d2 div_mult2_eq[of n 65536 256] by (simp add: Y_def)
  have "char_of n = a"
    using lt(1) by (simp add: char_of_eq_iff take_bit_eq_mod n A_def)
  moreover have "char_of (n div 256) = b"
    using lt(2) by (simp add: char_of_eq_iff take_bit_eq_mod d1 X_def B_def)
  moreover have "char_of (n div 65536) = c"
    using lt(3) by (simp add: char_of_eq_iff take_bit_eq_mod d2 Y_def C_def)
  moreover have "char_of (n div 16777216) = d"
    using lt(4) by (simp add: char_of_eq_iff take_bit_eq_mod d3 D_def)
  ultimately show ?thesis by (simp add: le32_def n_def[symmetric])
qed

lemma length4: "length xs = 4 \<Longrightarrow> \<exists>a b c d. xs = [a, b, c, d]"
  by (auto simp: numeral_eq_Suc length_Suc_conv)

lemma unpack_I_inj:
  assumes "length xs = 4" and "length ys = 4" and "unpack_I xs = unpack_I ys"
  shows "xs = ys"
proof -
  obtain a b c d where xs: "xs = [a, b, c, d]" using length4[OF assms(1)] by blast
  obtain a' b' c' d' where ys: "ys = [a', b', c', d']" using length4[OF assms(2)] by blast
  have "le32 (unpack_I xs) = le32 (unpack_I ys)" using assms(3) by simp
  then show ?thesis unfolding xs ys le32_unpack_I .
qed

lemma chunks4_first:
  assumes "4 \<le> length bs"
  shows "chunks4 bs ! 0 = take 4 bs"
  using assms by (cases bs rule: chunks4.cases) auto

lemma length_chunks4: "length (chunks4 bs) = length bs div 4"
  by (induction bs rule: chunks4.induct) auto

lemma inspect_entry_Listed_iff:
  assumes "f_read img pos 32 = (h, pos1)"
  shows "inspect_entry img pos = Listed t nm dl md pos' \<longleftrightarrow>
    (\<exists>fields nb pos2.
       struct_unpack 5 (take 20 h) = Inr fields \<and> fields ! 0 = FILE_MAGIC
       \<and> f_read img pos1 (align_to (fields ! 1) 4) = (nb, pos2)
       \<and> decode (take (fields ! 1) nb) = Inr nm
       \<and> pos' = pos2 + align_to (fields ! 2) BLOCK_SIZE
       \<and> t = (if fields ! 3 = FILE_TYPE_FILE then ''FILE'' else ''DIR '')
       \<and> dl = fields ! 2 \<and> md = fields ! 4)"
proof (cases "struct_unpack 5 (take 20 h)")
  case (Inl e)
  then show ?thesis by (simp add: inspect_entry_def assms)
next
  case (Inr fields)
  obtain nb pos2 where r2: "f_read img pos1 (align_to (fields ! 1) 4) = (nb, pos2)"
    by (cases "f_read img pos1 (align_to (fields ! 1) 4)") auto
  show ?thesis
  proof (cases "decode (take (fields ! 1) nb)")
    case (Inl e)
    note r2' = r2[unfolded One_nat_def] and dec' = Inl[unfolded One_nat_def]
    show ?thesis
      by (auto simp: inspect_entry_def assms Inr r2' dec' Let_def)
  next
    case dec: (Inr nm')
    note r2' = r2[unfolded One_nat_def] and dec' = dec[unfolded One_nat_def]
    show ?thesis
      by (auto simp: inspect_entry_def assms Inr r2' dec' Let_def)
  qed
qed

lemma f_read_pos: "f_read img pos n = (d, pos1) \<Longrightarrow> pos \<le> pos1 \<and> pos1 = pos + length d
    \<and> d = take n (drop pos img)"
  by (auto simp: f_read_def)

lemma inspect_entry_update:
  assumes "inspect_entry img pos = Listed t nm dl md pos'" and "pos' \<le> j"
  shows "inspect_entry (img[j := b]) pos = Listed t nm dl md pos'"
proof -
  obtain h pos1 where r1: "f_read img pos 32 = (h, pos1)"
    by (cases "f_read img pos 32") auto
  from assms(1)[unfolded inspect_entry_Listed_iff[OF r1]]
  obtain fields nb pos2 where
    f: "struct_unpack 5 (take 20 h) = Inr fields" "fields ! 0 = FILE_MAGIC"
    and r2: "f_read img pos1 (align_to (fields ! 1) 4) = (nb, pos2)"
    and rest: "decode (take (fields ! 1) nb) = Inr nm"
      "pos' = pos2 + align_to (fields ! 2) BLOCK_SIZE"
      "t = (if fields ! 3 = FILE_TYPE_FILE then ''FILE'' else ''DIR '')"
      "dl = fields ! 2" "md = fields ! 4"
    by blast
  have p1: "pos1 = pos + length (take 32 (drop pos img))" using f_read_pos[OF r1] by simp
  have p2: "pos2 = pos1 + length (take (align_to (fields ! 1) 4) (drop pos1 img))"
    using f_read_pos[OF r2] by simp
  have le: "pos1 \<le> j" "pos2 \<le> j"
    using assms(2) rest(2) f_read_pos[OF r2] by simp_all
  have u1: "f_read (img[j := b]) pos 32 = (h, pos1)"
    using f_read_update[of pos 32 img j b] le(1) r1 unfolding p1 by simp
  have u2: "f_read (img[j := b]) pos1 (align_to (fields ! 1) 4) = (nb, pos2)"
    using f_read_update[of pos1 "align_to (fields ! 1) 4" img j b] le(2) r2 unfolding p2 by simp
  show ?thesis
    unfolding inspect_entry_Listed_iff[OF u1] using f u2 rest by blast
qed

lemma inspect_entry_Listed_bounds:
  assumes "inspect_entry img pos = Listed t nm dl md pos'"
  shows "pos \<le> pos' \<and> pos + 20 \<le> length img"
proof -
  obtain h pos1 where r1: "f_read img pos 32 = (h, pos1)"
    by (cases "f_read img pos 32") auto
  from assms(1)[unfolded inspect_entry_Listed_iff[OF r1]]
  obtain fields nb pos2 where
    f: "struct_unpack 5 (take 20 h) = Inr fields"
    and r2: "f_read img pos1 (align_to (fields ! 1) 4) = (nb, pos2)"
    and rest: "pos' = pos2 + align_to (fields ! 2) BLOCK_SIZE"
    by blast
  have "length (take 20 h) = 20"
    using f by (simp add: struct_unpack_def split: if_splits)
  then have "20 \<le> length h" by simp
  moreover have "h = take 32 (drop pos img)" using f_read_pos[OF r1] by simp
  ultimately have "pos + 20 \<le> length img" by simp
  moreover have "pos \<le> pos'" using f_read_pos[OF r1] f_read_pos[OF r2] rest by simp
  ultimately show ?thesis by simp
qed

lemma inspect_entry_bad_magic:
  assumes "inspect_entry img pos = Listed t nm dl md pos'" and "k < 4" and "b \<noteq> img ! (pos + k)"
  shows "inspect_entry (img[pos + k := b]) pos = BadFileMagic"
proof -
  obtain h pos1 where r1: "f_read img pos 32 = (h, pos1)"
    by (cases "f_read img pos 32") auto
  from assms(1)[unfolded inspect_entry_Listed_iff[OF r1]]
  obtain fields where
    f: "struct_unpack 5 (take 20 h) = Inr fields" "fields ! 0 = FILE_MAGIC"
    by blast
  have h: "h = take 32 (drop pos img)" using f_read_pos[OF r1] by simp
  have l20: "length (take 20 h) = 20"
    using f(1) by (simp add: struct_unpack_def split: if_splits)
  then have lh: "20 \<le> length h" by simp
  have fields: "fields = map unpack_I (chunks4 (take 20 h))"
    using f(1) by (simp add: struct_unpack_def split: if_splits)
  have c0: "0 < length (chunks4 (take 20 h))" using l20 by (simp add: length_chunks4)
  have m: "unpack_I (take 4 h) = FILE_MAGIC"
    using f(2) c0 l20 unfolding fields by (simp add: chunks4_first)
  define img' where "img' = img[pos + k := b]"
  define h' where "h' = h[k := b]"
  have h': "take 32 (drop pos img') = h'"
    unfolding img'_def h'_def h by (simp add: drop_update_swap take_update_swap)
  have r1': "f_read img' pos 32 = (h', pos + length h')"
    unfolding f_read_def h' by simp
  have l20': "length (take 20 h') = 20" using l20 by (simp add: h'_def)
  have c0': "0 < length (chunks4 (take 20 h'))" using l20' by (simp add: length_chunks4)
  have hk: "h ! k = img ! (pos + k)" using lh assms(2) unfolding h by simp
  have ne: "take 4 h' \<noteq> take 4 h"
  proof
    assume "take 4 h' = take 4 h"
    then have "take 4 h' ! k = take 4 h ! k" by simp
    then have "h' ! k = h ! k" using assms(2) by simp
    then show False using lh assms(2,3) hk by (simp add: h'_def)
  qed
  have "unpack_I (take 4 h') \<noteq> unpack_I (take 4 h)"
    using unpack_I_inj[of "take 4 h'" "take 4 h"] ne lh by (auto simp: h'_def)
  then have m': "map unpack_I (chunks4 (take 20 h')) ! 0 \<noteq> FILE_MAGIC"
    using c0' l20' m by (simp add: chunks4_first)
  have su: "struct_unpack 5 (take 20 h') = Inr (map unpack_I (chunks4 (take 20 h')))"
    using l20' by (simp add: struct_unpack_def)
  show ?thesis
    unfolding img'_def[symmetric] inspect_entry_def r1' using m' by (simp add: su Let_def)
qed

lemma inspect_loop_valid_step:
  assumes "inspect_loop img pos i0 (Suc c) = (lines, None)"
    and "list_all is_entry_line lines"
  obtains t nm dl md pos' lines' where
    "inspect_entry img pos = Listed t nm dl md pos'"
    "lines = Entry t nm dl md # lines'"
    "inspect_loop img pos' (Suc i0) c = (lines', None)"
proof (cases "inspect_entry img pos")
  case (Raised e)
  then show ?thesis using assms(1) by simp
next
  case BadFileMagic
  then show ?thesis using assms by auto
next
  case (Listed t nm dl md pos')
  define L where "L = inspect_loop img pos' (Suc i0) c"
  from assms(1) Listed have "(Entry t nm dl md # fst L, snd L) = (lines, None)"
    by (simp add: L_def)
  then have l: "lines = Entry t nm dl md # fst L" and s: "snd L = None"
    by simp_all
  have "L = (fst L, None)" using s by (metis prod.collapse)
  then show ?thesis
    using that[OF Listed l] unfolding L_def by blast
qed

lemma inspect_loop_corrupt:
  assumes "inspect_loop img pos i0 cnt = (lines, None)"
    and "list_all is_entry_line lines"
    and "m < cnt"
  shows "\<exists>p. skip_entries img pos m = Some p \<and> pos \<le> p \<and> p + 4 \<le> length img \<and>
           (\<forall>k b. k < 4 \<longrightarrow> b \<noteq> img ! (p + k) \<longrightarrow>
              inspect_loop (img[p + k := b]) pos i0 cnt =
                (take m lines @ [InvalidFileMagic (i0 + m)], None))"
  using assms
proof (induction m arbitrary: pos i0 cnt lines)
  case 0
  from "0.prems"(3) obtain c where cnt: "cnt = Suc c" by (cases cnt) simp_all
  from inspect_loop_valid_step[OF "0.prems"(1)[unfolded cnt] "0.prems"(2)]
  obtain t nm dl md pos' where
    st: "inspect_entry img pos = Listed t nm dl md pos'"
    by metis
  show ?case
  proof (intro exI conjI allI impI)
    show "skip_entries img pos 0 = Some pos" by simp
    show "pos \<le> pos" by simp
    show "pos + 4 \<le> length img" using inspect_entry_Listed_bounds[OF st] by simp
  next
    fix k b assume kb: "k < 4" "b \<noteq> img ! (pos + k)"
    show "inspect_loop (img[pos + k := b]) pos i0 cnt =
        (take 0 lines @ [InvalidFileMagic (i0 + 0)], None)"
      unfolding cnt using inspect_entry_bad_magic[OF st kb] by simp
  qed
next
  case (Suc m)
  from Suc.prems(3) obtain c where cnt: "cnt = Suc c" by (cases cnt) simp_all
  from inspect_loop_valid_step[OF Suc.prems(1)[unfolded cnt] Suc.prems(2)]
  obtain t nm dl md pos' lines' where
    st: "inspect_entry img pos = Listed t nm dl md pos'"
    and lines: "lines = Entry t nm dl md # lines'"
    and rest: "inspect_loop img pos' (Suc i0) c = (lines', None)"
    by metis
  have ok': "list_all is_entry_line lines'" using Suc.prems(2) lines by simp
  have mc: "m < c" using Suc.prems(3) cnt by simp
  from Suc.IH[OF rest ok' mc] obtain p where
    p: "skip_entries img pos' m = Some p" "pos' \<le> p" "p + 4 \<le> length img"
    and ihall: "\<forall>k b. k < 4 \<longrightarrow> b \<noteq> img ! (p + k) \<longrightarrow>
              inspect_loop (img[p + k := b]) pos' (Suc i0) c =
                (take m lines' @ [InvalidFileMagic (Suc i0 + m)], None)"
    by (elim exE conjE)
  show ?case
  proof (intro exI conjI allI impI)
    show "skip_entries img pos (Suc m) = Some p" using st p(1) by simp
    show "pos \<le> p" using inspect_entry_Listed_bounds[OF st] p(2) by simp
    show "p + 4 \<le> length img" by (rule p(3))
  next
    fix k b assume kb: "k < 4" "b \<noteq> img ! (p + k)"
    have "pos' \<le> p + k" using p(2) by simp
    from inspect_entry_update[OF st this]
    have st': "inspect_entry (img[p + k := b]) pos = Listed t nm dl md pos'" .
    have ih: "inspect_loop (img[p + k := b]) pos' (Suc i0) c =
                (take m lines' @ [InvalidFileMagic (Suc i0 + m)], None)"
      using ihall kb by simp
    show "inspect_loop (img[p + k := b]) pos i0 cnt =
        (take (Suc m) lines @ [InvalidFileMagic (i0 + Suc m)], None)"
      unfolding cnt by (simp add: st' ih lines)
  qed
qed

lemma inspect_simple_fs_TotalD:
  assumes "inspect_simple_fs img = (TotalFiles n # lines, err)"
  shows "f_read img 0 8 = (MAGIC, 8)
       \<and> (\<exists>cb. f_read img 8 4 = (cb, 12) \<and> struct_unpack 1 cb = Inr [n])
       \<and> (\<exists>rb pos2. f_read img 12 4 = (rb, pos2) \<and> inspect_loop img pos2 0 n = (lines, err))"
proof -
  obtain magic pa where r1: "f_read img 0 8 = (magic, pa)"
    by (cases "f_read img 0 8") auto
  have magic: "magic = MAGIC"
  proof (rule ccontr)
    assume "magic \<noteq> MAGIC"
    then show False using assms by (simp add: inspect_simple_fs_def r1)
  qed
  have pa: "pa = 8" using f_read_pos[OF r1] magic by simp
  obtain cb pb where r2: "f_read img 8 4 = (cb, pb)"
    by (cases "f_read img 8 4") auto
  obtain fields where su: "struct_unpack 1 cb = Inr fields"
  proof (cases "struct_unpack 1 cb")
    case (Inl e)
    then have "inspect_simple_fs img = ([], Some e)"
      using Inl[unfolded One_nat_def] by (simp add: inspect_simple_fs_def r1 magic pa r2)
    with assms show ?thesis by simp
  next
    case (Inr fields)
    then show ?thesis using that by blast
  qed
  have lcb: "length cb = 4" using su by (simp add: struct_unpack_def split: if_splits)
  then have pb: "pb = 12" using f_read_pos[OF r2] by simp
  obtain a b c d where cb: "cb = [a, b, c, d]" using length4[OF lcb] by blast
  have fields: "fields = [unpack_I cb]"
    using su by (simp add: struct_unpack_def cb split: if_splits)
  obtain rb pos2 where r3: "f_read img 12 4 = (rb, pos2)"
    by (cases "f_read img 12 4") auto
  have "n = unpack_I cb \<and> fst (inspect_loop img pos2 0 n) = lines
      \<and> snd (inspect_loop img pos2 0 n) = err"
    using assms su[unfolded One_nat_def]
    by (auto simp: inspect_simple_fs_def r1 magic pa r2 pb r3 fields Let_def)
  then have "n = unpack_I cb \<and> inspect_loop img pos2 0 n = (lines, err)"
    by (metis prod.collapse)
  then show ?thesis
    using r1 magic pa r2 pb su fields r3 by auto
qed

lemma inspect_simple_fs_TotalI:
  assumes "f_read img 0 8 = (MAGIC, 8)" and "f_read img 8 4 = (cb, 12)"
    and "struct_unpack 1 cb = Inr [n]" and "f_read img 12 4 = (rb, pos2)"
    and "inspect_loop img pos2 0 n = (lines, err)"
  shows "inspect_simple_fs img = (TotalFiles n # lines, err)"
  using assms(3)[unfolded One_nat_def]
  by (simp add: inspect_simple_fs_def assms(1,2,4,5))

lemma valid_imageD:
  assumes "valid_image img" and "inspect_simple_fs img = (TotalFiles n # lines, err)"
  shows "err = None \<and> length lines = n \<and> list_all is_entry_line lines"
  using assms by (simp add: valid_image_def)

lemma le32_FILE_MAGIC: "le32 FILE_MAGIC = ''ELIF''"
  by (simp add: le32_def FILE_MAGIC_def char_of_eq_iff)

lemma sample_raw_ok:
  "list_all entry_ok [(''d'', [], FILE_TYPE_DIR, 493), (''a'', ''hi'', FILE_TYPE_FILE, 420)]"
  unfolding list.pred_inject entry_ok.simps sample_lengths hello_lengths
  by (simp add: utf8_short FILE_TYPE_DIR_def FILE_TYPE_FILE_def)

lemma inspect_sample:
  "inspect_simple_fs sample_image =
     (TotalFiles 2 # [Entry ''DIR '' ''d'' 0 493, Entry ''FILE'' ''a'' 2 420], None)"
proof -
  have l: "length [(''d'', ([]::string), FILE_TYPE_DIR, 493::nat), (''a'', ''hi'', FILE_TYPE_FILE, 420)] < 2 ^ 32"
    by simp
  show ?thesis
    unfolding sample_image_def inspect_image_layout[OF sample_raw_ok l]
    by (simp add: FILE_TYPE_DIR_def FILE_TYPE_FILE_def)
qed

lemma valid_sample: "valid_image sample_image"
  by (simp add: valid_image_def inspect_sample)

lemma sample_image_split:
  "sample_image = (MAGIC @ le32 2 @ le32 0) @ entry_block (''d'', [], FILE_TYPE_DIR, 493)
     @ (entry_block (''a'', ''hi'', FILE_TYPE_FILE, 420) @ replicate 424 (CHR 0x00))"
proof -
  have l: "length (concat (map entry_block [(''d'', [], FILE_TYPE_DIR, 493),
      (''a'', ''hi'', FILE_TYPE_FILE, 420)])) = 584"
    unfolding concat.simps list.map length_append length_entry_block sample_lengths
      hello_lengths align_small align_small2
    by simp
  have n: "length [(''d'', ([]::string), FILE_TYPE_DIR, 493::nat), (''a'', ''hi'', FILE_TYPE_FILE, 420)] = 2"
    by simp
  show ?thesis
    unfolding sample_image_def image_layout_def l n by simp
qed

lemma sample_first_block_length:
  "length (entry_block (''d'', [], FILE_TYPE_DIR, 493)) = 36"
  unfolding length_entry_block sample_lengths hello_lengths align_small align_small2 by simp

lemma sample_entry_pos: "entry_pos sample_image 1 = Some 52"
proof -
  have ok: "entry_ok (''d'', [], FILE_TYPE_DIR, 493)"
    using sample_raw_ok by simp
  have "inspect_entry sample_image (length (MAGIC @ le32 2 @ le32 0)) =
      Listed (if FILE_TYPE_DIR = 0 then ''FILE'' else ''DIR '') ''d'' (length ([]::string)) 493
        (length (MAGIC @ le32 2 @ le32 0) + length (entry_block (''d'', [], FILE_TYPE_DIR, 493)))"
    unfolding sample_image_split by (rule inspect_entry_block[OF ok])
  then have "inspect_entry sample_image 16 =
      Listed (if FILE_TYPE_DIR = 0 then ''FILE'' else ''DIR '') ''d'' 0 493 52"
    unfolding sample_first_block_length by simp
  then show ?thesis
    by (simp add: entry_pos_def)
qed

lemma sample_magic_byte: "sample_image ! 52 = CHR ''E''"
proof -
  define pre where "pre = (MAGIC @ le32 2 @ le32 0) @ entry_block (''d'', [], FILE_TYPE_DIR, 493)"
  have lp: "length pre = 52"
    unfolding pre_def length_append sample_first_block_length by simp
  have "sample_image = pre @ CHR ''E'' #
      (''LIF'' @ le32 (length ''a'') @ le32 (length ''hi'') @ le32 FILE_TYPE_FILE @ le32 420 @ replicate 12 (CHR 0x00))
      @ (''a'' @ replicate (align_to (length ''a'') 4 - length ''a'') (CHR 0x00))
      @ (''hi'' @ replicate (align_to (length ''hi'') 512 - length ''hi'') (CHR 0x00))
      @ replicate 424 (CHR 0x00)"
    unfolding sample_image_split pre_def entry_block.simps[of "''a''"] le32_FILE_MAGIC by simp
  then obtain ys where ys: "sample_image = pre @ CHR ''E'' # ys" by blast
  show ?thesis
    unfolding ys lp[symmetric] by (rule nth_append_length)
qed

text \<open>
  C7. In a valid image (the inspector lists all the entries the header announces, without
  an error), for every entry index \<open>i\<close> and each of the four bytes of the magic of entry
  \<open>i\<close>: the byte exists in the file, and changing it to any other value makes the
  inspector print the banner, the entries before \<open>i\<close> as before, and the error line for
  entry \<open>i\<close>, and then stop: nothing is listed after the error line and no exception is
  raised.
\<close>

theorem corrupted_entry_magic:
  assumes "valid_image img"
    and "inspect_simple_fs img = (TotalFiles n # lines, None)"
    and "i < n" and "k < 4"
  shows "\<exists>p. entry_pos img i = Some p \<and> p + 4 \<le> length img \<and>
           (\<forall>b. b \<noteq> img ! (p + k) \<longrightarrow>
              inspect_simple_fs (img[p + k := b]) =
                (TotalFiles n # take i lines @ [InvalidFileMagic i], None))"
proof -
  have ok: "list_all is_entry_line lines"
    using valid_imageD[OF assms(1,2)] by simp
  from inspect_simple_fs_TotalD[OF assms(2)] obtain cb rb pos2 where
    r1: "f_read img 0 8 = (MAGIC, 8)" and r2: "f_read img 8 4 = (cb, 12)"
    and su: "struct_unpack 1 cb = Inr [n]" and r3: "f_read img 12 4 = (rb, pos2)"
    and loop: "inspect_loop img pos2 0 n = (lines, None)"
    by (elim exE conjE)
  from inspect_loop_corrupt[OF loop ok assms(3)] obtain p where
    p: "skip_entries img pos2 i = Some p" "pos2 \<le> p" "p + 4 \<le> length img"
    and allkb: "\<forall>k b. k < 4 \<longrightarrow> b \<noteq> img ! (p + k) \<longrightarrow>
              inspect_loop (img[p + k := b]) pos2 0 n =
                (take i lines @ [InvalidFileMagic (0 + i)], None)"
    by (elim exE conjE)
  have "12 \<le> pos2" using f_read_pos[OF r3] by simp
  then have "16 \<le> length img" using p(2,3) by simp
  then have "length (take 4 (drop 12 img)) = 4" by simp
  then have pos2: "pos2 = 16" using f_read_pos[OF r3] by simp
  show ?thesis
  proof (intro exI conjI allI impI)
    show "entry_pos img i = Some p" using p(1) by (simp add: entry_pos_def pos2)
    show "p + 4 \<le> length img" by (rule p(3))
  next
    fix b assume b: "b \<noteq> img ! (p + k)"
    define img' where "img' = img[p + k := b]"
    have ge: "16 \<le> p + k" using p(2) pos2 by simp
    have u1: "f_read img' 0 8 = (MAGIC, 8)"
      unfolding img'_def using f_read_update[of 0 8 img "p + k" b] ge r1 by simp
    have u2: "f_read img' 8 4 = (cb, 12)"
      unfolding img'_def using f_read_update[of 8 4 img "p + k" b] ge r2 by simp
    have u3: "f_read img' 12 4 = (rb, 16)"
      unfolding img'_def using f_read_update[of 12 4 img "p + k" b] ge r3 pos2 by simp
    have l: "inspect_loop img' 16 0 n = (take i lines @ [InvalidFileMagic i], None)"
      unfolding img'_def using allkb assms(4) b pos2 by simp
    show "inspect_simple_fs (img[p + k := b]) =
        (TotalFiles n # take i lines @ [InvalidFileMagic i], None)"
      unfolding img'_def[symmetric] by (rule inspect_simple_fs_TotalI[OF u1 u2 su u3 l])
  qed
qed

theorem corrupted_entry_magic_witness:
  "valid_image sample_image
   \<and> inspect_simple_fs sample_image =
       (TotalFiles 2 # [Entry ''DIR '' ''d'' 0 493, Entry ''FILE'' ''a'' 2 420], None)
   \<and> (1 :: nat) < 2 \<and> (0 :: nat) < 4
   \<and> entry_pos sample_image 1 = Some 52
   \<and> CHR ''X'' \<noteq> sample_image ! (52 + 0)
   \<and> inspect_simple_fs (sample_image[52 + 0 := CHR ''X'']) =
       ([TotalFiles 2, Entry ''DIR '' ''d'' 0 493, InvalidFileMagic 1], None)"
proof -
  have i: "(1 :: nat) < 2" and k: "(0 :: nat) < 4" by simp_all
  from corrupted_entry_magic[OF valid_sample inspect_sample i k] obtain p where
    p: "entry_pos sample_image 1 = Some p"
    and allb: "\<forall>b. b \<noteq> sample_image ! (p + 0) \<longrightarrow>
              inspect_simple_fs (sample_image[p + 0 := b]) =
                (TotalFiles 2 # take 1 [Entry ''DIR '' ''d'' 0 493, Entry ''FILE'' ''a'' 2 420]
                   @ [InvalidFileMagic 1], None)"
    by (elim exE conjE)
  have p52: "p = 52" using p sample_entry_pos by simp
  have ne: "CHR ''X'' \<noteq> sample_image ! (52 + 0)" by (simp add: sample_magic_byte)
  have "inspect_simple_fs (sample_image[52 + 0 := CHR ''X'']) =
       ([TotalFiles 2, Entry ''DIR '' ''d'' 0 493, InvalidFileMagic 1], None)"
    using allb ne unfolding p52 by simp
  then show ?thesis
    using valid_sample inspect_sample sample_entry_pos ne by simp
qed

section \<open>The kind field on inspection\<close>

lemma chunks4_nth:
  "4 * Suc i \<le> length bs \<Longrightarrow> chunks4 bs ! i = take 4 (drop (4 * i) bs)"
proof (induction bs arbitrary: i rule: chunks4.induct)
  case (1 a b c d rest)
  show ?case
  proof (cases i)
    case 0
    then show ?thesis by simp
  next
    case (Suc j)
    have "4 * Suc j \<le> length rest" using "1.prems" Suc by simp
    from "1.IH"[OF this] have "chunks4 rest ! j = take 4 (drop (4 * j) rest)" .
    moreover have "4 * Suc j = Suc (Suc (Suc (Suc (4 * j))))" by simp
    ultimately show ?thesis unfolding Suc by (simp del: mult_Suc_right)
  qed
qed simp_all

lemma inspect_entry_kind_field:
  assumes "inspect_entry img pos = Listed t nm dl md pos'"
  shows "t = (if unpack_I (take 4 (drop (pos + 12) img)) = 0 then ''FILE'' else ''DIR '')"
proof -
  obtain h pos1 where r1: "f_read img pos 32 = (h, pos1)"
    by (cases "f_read img pos 32") auto
  from assms(1)[unfolded inspect_entry_Listed_iff[OF r1]]
  obtain fields where
    f: "struct_unpack 5 (take 20 h) = Inr fields"
    and t: "t = (if fields ! 3 = FILE_TYPE_FILE then ''FILE'' else ''DIR '')"
    by blast
  have h: "h = take 32 (drop pos img)" using f_read_pos[OF r1] by simp
  have l20: "length (take 20 h) = 20"
    using f by (simp add: struct_unpack_def split: if_splits)
  have fields: "fields = map unpack_I (chunks4 (take 20 h))"
    using f by (simp add: struct_unpack_def split: if_splits)
  have c: "3 < length (chunks4 (take 20 h))" using l20 by (simp add: length_chunks4)
  have "4 * Suc 3 \<le> length (take 20 h)" using l20 by simp
  from chunks4_nth[OF this] have "chunks4 (take 20 h) ! 3 = take 4 (drop 12 (take 20 h))"
    by simp
  also have "\<dots> = take 4 (drop 12 h)" by (simp add: drop_take)
  also have "\<dots> = take 4 (drop (pos + 12) img)"
    unfolding h by (simp add: drop_take add.commute)
  finally have "fields ! 3 = unpack_I (take 4 (drop (pos + 12) img))"
    using c by (simp add: fields)
  then show ?thesis using t by (simp add: FILE_TYPE_FILE_def)
qed

lemma inspect_sample_first:
  "inspect_entry sample_image 16 = Listed ''DIR '' ''d'' 0 493 52"
proof -
  have ok: "entry_ok (''d'', [], FILE_TYPE_DIR, 493)"
    using sample_raw_ok by simp
  have "inspect_entry sample_image (length (MAGIC @ le32 2 @ le32 0)) =
      Listed (if FILE_TYPE_DIR = 0 then ''FILE'' else ''DIR '') ''d'' (length ([]::string)) 493
        (length (MAGIC @ le32 2 @ le32 0) + length (entry_block (''d'', [], FILE_TYPE_DIR, 493)))"
    unfolding sample_image_split by (rule inspect_entry_block[OF ok])
  then show ?thesis
    unfolding sample_first_block_length by (simp add: FILE_TYPE_DIR_def)
qed

text \<open>
  C10. Wherever the inspector lists an entry, in any image and at any position, the type
  it prints is \<open>FILE\<close> when the kind field of the header (bytes 12 to 15,
  little-endian) is 0 and \<open>DIR\<close> for every other value. And inspecting an image whose
  entries carry any values in their kind fields (any 32-bit value, not only 0 and 1) ends
  without an error and lists every entry, as a file when the kind field is 0 and as a
  directory otherwise: no value of the kind is rejected.
\<close>

theorem inspect_kind_nonzero_is_dir:
  "(inspect_entry img pos = Listed t nm dl md pos' \<longrightarrow>
      t = (if unpack_I (take 4 (drop (pos + 12) img)) = 0 then ''FILE'' else ''DIR ''))
   \<and> (list_all entry_ok es \<and> length es < 2 ^ 32 \<longrightarrow>
        inspect_simple_fs (image_layout es sz) =
          (TotalFiles (length es) #
           map (\<lambda>(nb, data, kind, mode).
                  Entry (if kind = 0 then ''FILE'' else ''DIR '') nb (length data) mode) es,
           None))"
proof (intro conjI impI)
  assume "inspect_entry img pos = Listed t nm dl md pos'"
  then show "t = (if unpack_I (take 4 (drop (pos + 12) img)) = 0 then ''FILE'' else ''DIR '')"
    by (rule inspect_entry_kind_field)
next
  assume a: "list_all entry_ok es \<and> length es < 2 ^ 32"
  then have ok: "list_all entry_ok es" and l: "length es < 2 ^ 32" by blast+
  show "inspect_simple_fs (image_layout es sz) =
          (TotalFiles (length es) #
           map (\<lambda>(nb, data, kind, mode).
                  Entry (if kind = 0 then ''FILE'' else ''DIR '') nb (length data) mode) es,
           None)"
    unfolding inspect_image_layout[OF ok l] image_layout_listing by (rule refl)
qed

theorem inspect_kind_nonzero_is_dir_witness:
  "inspect_entry sample_image 16 = Listed ''DIR '' ''d'' 0 493 52
   \<and> unpack_I (take 4 (drop (16 + 12) sample_image)) \<noteq> 0
   \<and> list_all entry_ok [(''a'', ''hi'', 7, 420), (''d'', [], 0, 493)]
   \<and> length [(''a'', ''hi'', 7 :: nat, 420 :: nat), (''d'', [], 0, 493)] < 2 ^ 32
   \<and> inspect_simple_fs (image_layout [(''a'', ''hi'', 7, 420), (''d'', [], 0, 493)] 1024) =
       ([TotalFiles 2, Entry ''DIR '' ''a'' 2 420, Entry ''FILE'' ''d'' 0 493], None)"
proof -
  have ok: "list_all entry_ok [(''a'', ''hi'', 7, 420), (''d'', [], 0, 493)]"
    unfolding list.pred_inject entry_ok.simps sample_lengths hello_lengths
    by (simp add: utf8_short)
  have l: "length [(''a'', ''hi'', 7 :: nat, 420 :: nat), (''d'', [], 0, 493)] < 2 ^ 32"
    by simp
  note t = inspect_kind_nonzero_is_dir[of sample_image 16 "''DIR ''" "''d''" 0 493 52
      "[(''a'', ''hi'', 7, 420), (''d'', [], 0, 493)]" 1024]
  from t inspect_sample_first
  have k: "''DIR '' = (if unpack_I (take 4 (drop (16 + 12) sample_image)) = 0
                       then ''FILE'' else ''DIR '')"
    by blast
  have k': "unpack_I (take 4 (drop (16 + 12) sample_image)) \<noteq> 0"
  proof
    assume "unpack_I (take 4 (drop (16 + 12) sample_image)) = 0"
    with k show False by simp
  qed
  have i: "inspect_simple_fs (image_layout [(''a'', ''hi'', 7, 420), (''d'', [], 0, 493)] 1024) =
       ([TotalFiles 2, Entry ''DIR '' ''a'' 2 420, Entry ''FILE'' ''d'' 0 493], None)"
    using t ok l by simp
  show ?thesis
    using inspect_sample_first k' ok l i by simp
qed

section \<open>Round trip\<close>








end
